theory Spec2Isabelle
  imports Main "HOL-Library.Char_ord" "HOL-Library.List_Lexorder" "HOL-Library.AList"
    "HOL-Library.Multiset"
begin

section \<open>Python values and strings\<close>

text \<open>
  The program of \<^verbatim>\<open>main.py\<close> works on what \<^verbatim>\<open>json.load\<close> returns: \<^verbatim>\<open>None\<close>,
  booleans, integers, floats, strings, lists and dictionaries with string keys.
  A string is a list of characters, each a code point below 256; the character
  classes below are Python's on that range. A float is kept as the text that
  \<^verbatim>\<open>str()\<close> prints for it, the only thing the program reads of a float besides
  whether it is zero. A dictionary is an association list in insertion order, looked
  up with \<open>map_of\<close>.
\<close>

datatype pyval =
    PNone
  | PBool bool
  | PInt int
  | PFloat string
  | PStr string
  | PList "pyval list"
  | PDict "(string \<times> pyval) list"

datatype error = AttributeError | TypeError | KeyError | ValueError | IndexError

text \<open>\<^verbatim>\<open>str.isspace\<close>, also the class \<^verbatim>\<open>\s\<close> of \<^verbatim>\<open>re\<close> on strings.\<close>

definition is_space :: "char \<Rightarrow> bool" where
  "is_space c = (let n = (of_char c :: nat) in
     (9 \<le> n \<and> n \<le> 13) \<or> (28 \<le> n \<and> n \<le> 32) \<or> n = 133 \<or> n = 160)"

text \<open>The class \<^verbatim>\<open>\d\<close>: the decimal digits.\<close>

definition is_digit :: "char \<Rightarrow> bool" where
  "is_digit c = (let n = (of_char c :: nat) in 48 \<le> n \<and> n \<le> 57)"

text \<open>The class \<^verbatim>\<open>\w\<close>: the alphanumeric characters of \<^verbatim>\<open>str.isalnum\<close> and the underscore.\<close>

definition is_word :: "char \<Rightarrow> bool" where
  "is_word c = (let n = (of_char c :: nat) in
     (48 \<le> n \<and> n \<le> 57) \<or> (65 \<le> n \<and> n \<le> 90) \<or> n = 95 \<or> (97 \<le> n \<and> n \<le> 122)
     \<or> n = 170 \<or> n = 178 \<or> n = 179 \<or> n = 181 \<or> n = 185 \<or> n = 186
     \<or> (188 \<le> n \<and> n \<le> 190) \<or> (192 \<le> n \<and> n \<le> 214) \<or> (216 \<le> n \<and> n \<le> 246)
     \<or> (248 \<le> n \<and> n \<le> 255))"

text \<open>\<^verbatim>\<open>str.lower\<close>, character by character.\<close>

definition lower_char :: "char \<Rightarrow> char" where
  "lower_char c = (let n = (of_char c :: nat) in
     if (65 \<le> n \<and> n \<le> 90) \<or> (192 \<le> n \<and> n \<le> 222 \<and> n \<noteq> 215) then char_of (n + 32) else c)"

definition lower :: "string \<Rightarrow> string" where
  "lower s = map lower_char s"

text \<open>\<^verbatim>\<open>str.strip\<close>: leading and trailing white space removed.\<close>

definition strip :: "string \<Rightarrow> string" where
  "strip s = rev (dropWhile is_space (rev (dropWhile is_space s)))"

text \<open>\<^verbatim>\<open>sub in s\<close> on two strings: \<open>sub\<close> occurs in \<open>s\<close> as a contiguous piece.\<close>

fun starts_with :: "string \<Rightarrow> string \<Rightarrow> bool" where
  "starts_with s [] = True"
| "starts_with [] (p # ps) = False"
| "starts_with (c # cs) (p # ps) = (c = p \<and> starts_with cs ps)"

fun py_contains :: "string \<Rightarrow> string \<Rightarrow> bool" where
  "py_contains sub [] = (sub = [])"
| "py_contains sub (c # cs) = (starts_with (c # cs) sub \<or> py_contains sub cs)"

text \<open>Decimal text of an integer: \<^verbatim>\<open>str(n)\<close> and the format \<^verbatim>\<open>{n:02d}\<close>.\<close>

definition digit_char :: "nat \<Rightarrow> char" where
  "digit_char n = char_of (48 + n)"

definition digit_val :: "char \<Rightarrow> nat" where
  "digit_val c = of_char c - 48"

fun digits_of :: "nat \<Rightarrow> string" where
  "digits_of n = (if n < 10 then [digit_char n] else digits_of (n div 10) @ [digit_char (n mod 10)])"

declare digits_of.simps [simp del]

definition py_str_int :: "int \<Rightarrow> string" where
  "py_str_int i = (if i < 0 then CHR ''-'' # digits_of (nat (- i)) else digits_of (nat i))"

definition fmt_02d :: "int \<Rightarrow> string" where
  "fmt_02d i = (let s = py_str_int i in replicate (2 - length s) CHR ''0'' @ s)"

text \<open>
  Truth value of a value (\<^verbatim>\<open>not value\<close>, \<^verbatim>\<open>if value\<close>): \<^verbatim>\<open>None\<close>, \<^verbatim>\<open>False\<close>, zero and
  the empty string, list and dictionary are false.
\<close>

fun py_truthy :: "pyval \<Rightarrow> bool" where
  "py_truthy PNone = False"
| "py_truthy (PBool b) = b"
| "py_truthy (PInt i) = (i \<noteq> 0)"
| "py_truthy (PFloat r) = (r \<noteq> ''0.0'' \<and> r \<noteq> ''-0.0'')"
| "py_truthy (PStr s) = (s \<noteq> [])"
| "py_truthy (PList xs) = (xs \<noteq> [])"
| "py_truthy (PDict kvs) = (kvs \<noteq> [])"

text \<open>
  \<^verbatim>\<open>str(value)\<close>. The text Python prints for a list or a dictionary is not spelled
  out: it is the parameter \<open>rp\<close>, and every result below holds for any \<open>rp\<close>.
\<close>

fun py_str :: "(pyval \<Rightarrow> string) \<Rightarrow> pyval \<Rightarrow> string" where
  "py_str rp PNone = ''None''"
| "py_str rp (PBool b) = (if b then ''True'' else ''False'')"
| "py_str rp (PInt i) = py_str_int i"
| "py_str rp (PFloat r) = r"
| "py_str rp (PStr s) = s"
| "py_str rp (PList xs) = rp (PList xs)"
| "py_str rp (PDict kvs) = rp (PDict kvs)"

section \<open>Cleaning a field value\<close>

text \<open>
  \<^verbatim>\<open>get_field_value\<close> (lines 244-248): a false value, or one whose stripped text
  is in the list of blanks, becomes \<^verbatim>\<open>"N/A"\<close>; any other value becomes its stripped
  text.
\<close>

definition get_field_value :: "(pyval \<Rightarrow> string) \<Rightarrow> pyval \<Rightarrow> string" where
  "get_field_value rp v =
     (if \<not> py_truthy v \<or> strip (py_str rp v) \<in> set ['''', '' '', ''N/A'', ''null'', ''None'']
      then ''N/A'' else strip (py_str rp v))"

section \<open>Date normalisation\<close>

text \<open>
  \<^verbatim>\<open>int(s)\<close> as \<^verbatim>\<open>parse_date\<close> uses it: on a group that \<^verbatim>\<open>\d\<close> matched, a non-empty
  string of decimal digits, whose value it returns. Any other string is reported as
  \<^verbatim>\<open>ValueError\<close>.
\<close>

definition digits_value :: "string \<Rightarrow> nat" where
  "digits_value s = foldl (\<lambda>acc c. 10 * acc + digit_val c) 0 s"

definition py_int :: "string \<Rightarrow> error + int" where
  "py_int s = (if s \<noteq> [] \<and> list_all is_digit s then Inr (int (digits_value s)) else Inl ValueError)"

definition bind_err :: "error + 'a \<Rightarrow> ('a \<Rightarrow> error + 'b) \<Rightarrow> error + 'b" where
  "bind_err m f = (case m of Inl e \<Rightarrow> Inl e | Inr x \<Rightarrow> f x)"

text \<open>
  The five regular expressions of \<^verbatim>\<open>parse_date\<close>, each matched from the start of the
  string by \<^verbatim>\<open>re.match\<close>. In all of them a repeated class is followed by something
  that no character of the class can start (digits by a separator, a comma, white
  space or the end; word characters by a hyphen or white space; white space by a
  digit), so a repetition can only match the whole run of its class and back-tracking
  never finds a second match: the pieces below take the whole run and check its length.
  \<^verbatim>\<open>$\<close> matches at the end of the string and before a line feed that ends it.
\<close>

definition take_digits :: "nat \<Rightarrow> nat \<Rightarrow> string \<Rightarrow> (string \<times> string) option" where
  "take_digits lo hi s =
     (let g = takeWhile is_digit s in
      if lo \<le> length g \<and> length g \<le> hi then Some (g, dropWhile is_digit s) else None)"

definition take_sep :: "string \<Rightarrow> string \<Rightarrow> string option" where
  "take_sep seps s = (case s of [] \<Rightarrow> None | c # r \<Rightarrow> if c \<in> set seps then Some r else None)"

definition take_word :: "string \<Rightarrow> (string \<times> string) option" where
  "take_word s =
     (let g = takeWhile is_word s in if g \<noteq> [] then Some (g, dropWhile is_word s) else None)"

definition take_spaces :: "string \<Rightarrow> string option" where
  "take_spaces s = (if takeWhile is_space s \<noteq> [] then Some (dropWhile is_space s) else None)"

definition opt_comma :: "string \<Rightarrow> string" where
  "opt_comma s = (case s of [] \<Rightarrow> s | c # r \<Rightarrow> if c = CHR '','' then r else s)"

definition at_end :: "string \<Rightarrow> bool" where
  "at_end s = (s = [] \<or> s = [CHR 0x0A])"

text \<open>\<^verbatim>\<open>^(\d{1,2})[/-](\d{1,2})[/-](\d{4})$\<close>, the expression of patterns 1 and 2.\<close>

definition match_numeric :: "string \<Rightarrow> (string \<times> string \<times> string) option" where
  "match_numeric s =
     (case take_digits 1 2 s of None \<Rightarrow> None | Some (g1, r1) \<Rightarrow>
      case take_sep ''/-'' r1 of None \<Rightarrow> None | Some r2 \<Rightarrow>
      case take_digits 1 2 r2 of None \<Rightarrow> None | Some (g2, r3) \<Rightarrow>
      case take_sep ''/-'' r3 of None \<Rightarrow> None | Some r4 \<Rightarrow>
      case take_digits 4 4 r4 of None \<Rightarrow> None | Some (g3, r5) \<Rightarrow>
      if at_end r5 then Some (g1, g2, g3) else None)"

text \<open>\<^verbatim>\<open>^(\d{1,2})[-](\w+)[-](\d{4})$\<close>, the expression of pattern 3.\<close>

definition match_day_name_year :: "string \<Rightarrow> (string \<times> string \<times> string) option" where
  "match_day_name_year s =
     (case take_digits 1 2 s of None \<Rightarrow> None | Some (g1, r1) \<Rightarrow>
      case take_sep ''-'' r1 of None \<Rightarrow> None | Some r2 \<Rightarrow>
      case take_word r2 of None \<Rightarrow> None | Some (g2, r3) \<Rightarrow>
      case take_sep ''-'' r3 of None \<Rightarrow> None | Some r4 \<Rightarrow>
      case take_digits 4 4 r4 of None \<Rightarrow> None | Some (g3, r5) \<Rightarrow>
      if at_end r5 then Some (g1, g2, g3) else None)"

text \<open>\<^verbatim>\<open>^(\w+)\s+(\d{1,2}),?\s+(\d{4})$\<close>, the expression of pattern 4.\<close>

definition match_name_day_year :: "string \<Rightarrow> (string \<times> string \<times> string) option" where
  "match_name_day_year s =
     (case take_word s of None \<Rightarrow> None | Some (g1, r1) \<Rightarrow>
      case take_spaces r1 of None \<Rightarrow> None | Some r2 \<Rightarrow>
      case take_digits 1 2 r2 of None \<Rightarrow> None | Some (g2, r3) \<Rightarrow>
      case take_spaces (opt_comma r3) of None \<Rightarrow> None | Some r4 \<Rightarrow>
      case take_digits 4 4 r4 of None \<Rightarrow> None | Some (g3, r5) \<Rightarrow>
      if at_end r5 then Some (g1, g2, g3) else None)"

text \<open>\<^verbatim>\<open>^(\d{4})[-](\d{1,2})[-](\d{1,2})$\<close>, the expression of pattern 5.\<close>

definition match_iso :: "string \<Rightarrow> (string \<times> string \<times> string) option" where
  "match_iso s =
     (case take_digits 4 4 s of None \<Rightarrow> None | Some (g1, r1) \<Rightarrow>
      case take_sep ''-'' r1 of None \<Rightarrow> None | Some r2 \<Rightarrow>
      case take_digits 1 2 r2 of None \<Rightarrow> None | Some (g2, r3) \<Rightarrow>
      case take_sep ''-'' r3 of None \<Rightarrow> None | Some r4 \<Rightarrow>
      case take_digits 1 2 r4 of None \<Rightarrow> None | Some (g3, r5) \<Rightarrow>
      if at_end r5 then Some (g1, g2, g3) else None)"

definition month_names :: "(string \<times> int) list" where
  "month_names =
     [(''january'', 1), (''jan'', 1),
      (''february'', 2), (''feb'', 2),
      (''march'', 3), (''mar'', 3),
      (''april'', 4), (''apr'', 4),
      (''may'', 5),
      (''june'', 6), (''jun'', 6),
      (''july'', 7), (''jul'', 7),
      (''august'', 8), (''aug'', 8),
      (''september'', 9), (''sep'', 9), (''sept'', 9),
      (''october'', 10), (''oct'', 10),
      (''november'', 11), (''nov'', 11),
      (''december'', 12), (''dec'', 12)]"

text \<open>The text every pattern returns: \<^verbatim>\<open>f"{month:02d}/{day:02d}/{year}"\<close>.\<close>

definition fmt_date :: "int \<Rightarrow> int \<Rightarrow> int \<Rightarrow> string" where
  "fmt_date month day year = fmt_02d month @ ''/'' @ fmt_02d day @ ''/'' @ py_str_int year"

text \<open>
  The five patterns (lines 35-73). Each gives \<open>Inr (Some text)\<close> when it returns from
  \<^verbatim>\<open>parse_date\<close>, \<open>Inr None\<close> when control goes on to the next pattern, and
  \<open>Inl e\<close> when a conversion raises.
\<close>

definition pattern1 :: "string \<Rightarrow> error + string option" where
  "pattern1 date_str =
     (case match_numeric date_str of None \<Rightarrow> Inr None | Some (g1, g2, g3) \<Rightarrow>
      bind_err (py_int g1) (\<lambda>month. bind_err (py_int g2) (\<lambda>day. bind_err (py_int g3) (\<lambda>year.
        if 1 \<le> month \<and> month \<le> 12 \<and> 1 \<le> day \<and> day \<le> 31 \<and> 1000 \<le> year \<and> year \<le> 9999
        then Inr (Some (fmt_date month day year)) else Inr None))))"

definition pattern2 :: "string \<Rightarrow> error + string option" where
  "pattern2 date_str =
     (case match_numeric date_str of None \<Rightarrow> Inr None | Some (g1, g2, g3) \<Rightarrow>
      bind_err (py_int g1) (\<lambda>day. bind_err (py_int g2) (\<lambda>month. bind_err (py_int g3) (\<lambda>year.
        if 1 \<le> month \<and> month \<le> 12 \<and> 1 \<le> day \<and> day \<le> 31 \<and> 1000 \<le> year \<and> year \<le> 9999
        then Inr (Some (fmt_date month day year)) else Inr None))))"

definition pattern3 :: "string \<Rightarrow> error + string option" where
  "pattern3 date_str =
     (case match_day_name_year date_str of None \<Rightarrow> Inr None | Some (g1, g2, g3) \<Rightarrow>
      bind_err (py_int g3) (\<lambda>year.
        case map_of month_names (lower g2) of None \<Rightarrow> Inr None | Some month \<Rightarrow>
        bind_err (py_int g1) (\<lambda>day.
          if 1 \<le> day \<and> day \<le> 31 then Inr (Some (fmt_date month day year)) else Inr None)))"

definition pattern4 :: "string \<Rightarrow> error + string option" where
  "pattern4 date_str =
     (case match_name_day_year date_str of None \<Rightarrow> Inr None | Some (g1, g2, g3) \<Rightarrow>
      bind_err (py_int g2) (\<lambda>day. bind_err (py_int g3) (\<lambda>year.
        case map_of month_names (lower g1) of None \<Rightarrow> Inr None | Some month \<Rightarrow>
        if 1 \<le> day \<and> day \<le> 31 then Inr (Some (fmt_date month day year)) else Inr None)))"

definition pattern5 :: "string \<Rightarrow> error + string option" where
  "pattern5 date_str =
     (case match_iso date_str of None \<Rightarrow> Inr None | Some (g1, g2, g3) \<Rightarrow>
      bind_err (py_int g1) (\<lambda>year. bind_err (py_int g2) (\<lambda>month. bind_err (py_int g3) (\<lambda>day.
        if 1 \<le> month \<and> month \<le> 12 \<and> 1 \<le> day \<and> day \<le> 31
        then Inr (Some (fmt_date month day year)) else Inr None))))"

text \<open>
  The fall-back of lines 75-81, \<^verbatim>\<open>dateutil.parser.parse\<close> followed by
  \<^verbatim>\<open>strftime("%m/%d/%Y")\<close>, is a library outside the repository: it is the parameter
  \<open>fb\<close>, which gives the formatted text, or \<open>None\<close> when the import, the parser or
  the formatter raises (the bare \<^verbatim>\<open>except\<close> swallows every exception).
\<close>

definition or_else :: "error + string option \<Rightarrow> error + string \<Rightarrow> error + string" where
  "or_else p rest = (case p of Inl e \<Rightarrow> Inl e | Inr None \<Rightarrow> rest | Inr (Some out) \<Rightarrow> Inr out)"

definition fallback :: "(string \<Rightarrow> string option) \<Rightarrow> string \<Rightarrow> error + string" where
  "fallback fb date_str = (case fb date_str of Some out \<Rightarrow> Inr out | None \<Rightarrow> Inr date_str)"

text \<open>The body of the outer \<^verbatim>\<open>try\<close>, followed by the final \<^verbatim>\<open>return date_str\<close>.\<close>

definition parse_date_try :: "(string \<Rightarrow> string option) \<Rightarrow> string \<Rightarrow> error + string" where
  "parse_date_try fb date_str =
     or_else (pattern1 date_str)
    (or_else (pattern2 date_str)
    (or_else (pattern3 date_str)
    (or_else (pattern4 date_str)
    (or_else (pattern5 date_str)
    (fallback fb date_str)))))"

text \<open>
  \<^verbatim>\<open>parse_date\<close> (lines 9-85) on a string. The handler of the outer \<^verbatim>\<open>try\<close> catches
  \<^verbatim>\<open>ValueError\<close>, \<^verbatim>\<open>TypeError\<close> and \<^verbatim>\<open>IndexError\<close>, after which the stripped string is
  returned.
\<close>

definition parse_date :: "(string \<Rightarrow> string option) \<Rightarrow> string \<Rightarrow> error + string" where
  "parse_date fb s =
     (if s = [] \<or> s = ''N/A'' then Inr ''N/A''
      else let date_str = strip s in
        case parse_date_try fb date_str of
          Inr out \<Rightarrow> Inr out
        | Inl e \<Rightarrow> if e \<in> {ValueError, TypeError, IndexError} then Inr date_str else Inl e)"

text \<open>\<^verbatim>\<open>parse_date\<close> with the branch of pattern 2 (lines 42-47) removed.\<close>

definition parse_date_try_no2 :: "(string \<Rightarrow> string option) \<Rightarrow> string \<Rightarrow> error + string" where
  "parse_date_try_no2 fb date_str =
     or_else (pattern1 date_str)
    (or_else (pattern3 date_str)
    (or_else (pattern4 date_str)
    (or_else (pattern5 date_str)
    (fallback fb date_str))))"

definition parse_date_no2 :: "(string \<Rightarrow> string option) \<Rightarrow> string \<Rightarrow> error + string" where
  "parse_date_no2 fb s =
     (if s = [] \<or> s = ''N/A'' then Inr ''N/A''
      else let date_str = strip s in
        case parse_date_try_no2 fb date_str of
          Inr out \<Rightarrow> Inr out
        | Inl e \<Rightarrow> if e \<in> {ValueError, TypeError, IndexError} then Inr date_str else Inl e)"

text \<open>The fall-back parser that rejects every string: \<^verbatim>\<open>parse\<close> raises.\<close>

definition fallback_raises :: "string \<Rightarrow> string option" where
  "fallback_raises date_str = None"

section \<open>Shapes of dates\<close>

text \<open>
  The form \<^verbatim>\<open>MM/DD/YYYY\<close>: two digits, a slash, two digits, a slash, four digits.
\<close>

definition is_mmddyyyy :: "string \<Rightarrow> bool" where
  "is_mmddyyyy s =
     (length s = 10 \<and> list_all is_digit (take 2 s) \<and> s ! 2 = CHR ''/'' \<and>
      list_all is_digit (take 2 (drop 3 s)) \<and> s ! 5 = CHR ''/'' \<and> list_all is_digit (drop 6 s))"

text \<open>
  The normalised form: \<^verbatim>\<open>MM/DD/YYYY\<close> with the month from 1 to 12, the day from 1 to 31
  and the year from 1000 to 9999.
\<close>

definition is_normalized :: "string \<Rightarrow> bool" where
  "is_normalized s =
     (is_mmddyyyy s \<and>
      1 \<le> digits_value (take 2 s) \<and> digits_value (take 2 s) \<le> 12 \<and>
      1 \<le> digits_value (take 2 (drop 3 s)) \<and> digits_value (take 2 (drop 3 s)) \<le> 31 \<and>
      1000 \<le> digits_value (drop 6 s) \<and> digits_value (drop 6 s) \<le> 9999)"


text \<open>
  A numeric triple that can only be read day first: the first number from 13 to 31,
  the second from 1 to 12, the year from 1000 to 9999.
\<close>

definition day_first :: "string \<Rightarrow> bool" where
  "day_first date_str =
     (case match_numeric date_str of None \<Rightarrow> False | Some (g1, g2, g3) \<Rightarrow>
        13 \<le> digits_value g1 \<and> digits_value g1 \<le> 31 \<and>
        1 \<le> digits_value g2 \<and> digits_value g2 \<le> 12 \<and>
        1000 \<le> digits_value g3 \<and> digits_value g3 \<le> 9999)"

section \<open>Reading Python values\<close>

text \<open>
  \<^verbatim>\<open>d.get(k, default)\<close>: only a dictionary has the method; on any other value the call
  raises \<^verbatim>\<open>AttributeError\<close>. \<^verbatim>\<open>d.get(k)\<close> is \<open>py_get d k PNone\<close>.
\<close>

definition py_get :: "pyval \<Rightarrow> string \<Rightarrow> pyval \<Rightarrow> error + pyval" where
  "py_get d k dflt =
     (case d of
        PDict kvs \<Rightarrow> Inr (case map_of kvs k of Some v \<Rightarrow> v | None \<Rightarrow> dflt)
      | _ \<Rightarrow> Inl AttributeError)"

text \<open>\<^verbatim>\<open>d[k]\<close> with a string \<open>k\<close>: \<^verbatim>\<open>KeyError\<close> on a dictionary without the key,
  \<^verbatim>\<open>TypeError\<close> on a value that is no dictionary.\<close>

definition py_getitem :: "pyval \<Rightarrow> string \<Rightarrow> error + pyval" where
  "py_getitem d k =
     (case d of
        PDict kvs \<Rightarrow> (case map_of kvs k of Some v \<Rightarrow> Inr v | None \<Rightarrow> Inl KeyError)
      | _ \<Rightarrow> Inl TypeError)"

text \<open>\<^verbatim>\<open>v.lower()\<close>: a method of strings only.\<close>

definition py_lower :: "pyval \<Rightarrow> error + string" where
  "py_lower v = (case v of PStr s \<Rightarrow> Inr (lower s) | _ \<Rightarrow> Inl AttributeError)"

text \<open>
  \<^verbatim>\<open>for x in v\<close>: the elements of a list, the keys of a dictionary, the characters of
  a string; any other value is not iterable.
\<close>

definition py_iter :: "pyval \<Rightarrow> error + pyval list" where
  "py_iter v =
     (case v of
        PList xs \<Rightarrow> Inr xs
      | PDict kvs \<Rightarrow> Inr (map (\<lambda>kv. PStr (fst kv)) kvs)
      | PStr s \<Rightarrow> Inr (map (\<lambda>c. PStr [c]) s)
      | _ \<Rightarrow> Inl TypeError)"

text \<open>
  \<^verbatim>\<open>name in label_map\<close> followed by \<^verbatim>\<open>label_map[name]\<close>, for a dictionary with string
  keys: the value under a string key, nothing for a hashable value that is no key,
  \<^verbatim>\<open>TypeError\<close> for a list or a dictionary (unhashable).
\<close>

definition py_lookup :: "pyval \<Rightarrow> (string \<times> string) list \<Rightarrow> error + string option" where
  "py_lookup name label_map =
     (case name of
        PStr s \<Rightarrow> Inr (map_of label_map s)
      | PList xs \<Rightarrow> Inl TypeError
      | PDict kvs \<Rightarrow> Inl TypeError
      | _ \<Rightarrow> Inr None)"

section \<open>Type classifier\<close>

text \<open>\<^verbatim>\<open>any(ind in meta_type or ind in title for ind in indicators)\<close>.\<close>

definition any_indicator :: "string list \<Rightarrow> string \<Rightarrow> string \<Rightarrow> bool" where
  "any_indicator indicators meta_type title =
     list_ex (\<lambda>ind. py_contains ind meta_type \<or> py_contains ind title) indicators"

text \<open>The first loop over the skills (lines 222-229): substrings of the lowered name.\<close>

fun scan_skill_names :: "pyval list \<Rightarrow> error + string option" where
  "scan_skill_names [] = Inr None"
| "scan_skill_names (skill # rest) =
     bind_err (py_get skill ''SkillName'' (PStr [])) (\<lambda>v.
     bind_err (py_lower v) (\<lambda>skill_name.
       if py_contains ''1120'' skill_name then Inr (Some ''1120'')
       else if py_contains ''w2'' skill_name \<or> py_contains ''w-2'' skill_name then Inr (Some ''w2'')
       else if py_contains ''paystub'' skill_name then Inr (Some ''paystub'')
       else scan_skill_names rest))"

text \<open>The second loop over the skills (lines 231-238): the exact names.\<close>

fun match_skill_names :: "pyval list \<Rightarrow> error + string option" where
  "match_skill_names [] = Inr None"
| "match_skill_names (skill # rest) =
     bind_err (py_get skill ''SkillName'' (PStr [])) (\<lambda>skill_name.
       if skill_name = PStr ''IC - 1120'' then Inr (Some ''1120'')
       else if skill_name = PStr ''IC - W2'' then Inr (Some ''w2'')
       else if skill_name = PStr ''IC - Paystubs'' then Inr (Some ''paystub'')
       else match_skill_names rest)"

text \<open>The body of the \<^verbatim>\<open>try\<close> of \<^verbatim>\<open>identify_document_type\<close> (lines 211-240).\<close>

definition identify_body :: "pyval \<Rightarrow> error + string" where
  "identify_body json_data =
     bind_err (py_get json_data ''Meta'' (PDict [])) (\<lambda>meta.
     bind_err (py_get meta ''Type'' (PStr [])) (\<lambda>ty.
     bind_err (py_lower ty) (\<lambda>meta_type.
     bind_err (py_get json_data ''Title'' (PStr [])) (\<lambda>tl.
     bind_err (py_lower tl) (\<lambda>title.
       if any_indicator [''w2'', ''w-2'', ''income w-2''] meta_type title then Inr ''w2''
       else if any_indicator [''1120'', ''form 1120''] meta_type title then Inr ''1120''
       else
         bind_err (py_get json_data ''Summary'' (PList [])) (\<lambda>summary.
         bind_err (py_iter summary) (\<lambda>skills.
         bind_err (scan_skill_names skills) (\<lambda>found.
           case found of
             Some t \<Rightarrow> Inr t
           | None \<Rightarrow>
               bind_err (py_get json_data ''Summary'' (PList [])) (\<lambda>summary2.
               bind_err (py_iter summary2) (\<lambda>skills2.
               bind_err (match_skill_names skills2) (\<lambda>found2.
                 case found2 of Some t \<Rightarrow> Inr t | None \<Rightarrow> Inr ''paystub'')))))))))))"

text \<open>
  \<^verbatim>\<open>identify_document_type\<close> (lines 208-242): \<^verbatim>\<open>except Exception\<close> turns every error of
  the body into \<^verbatim>\<open>"paystub"\<close>.
\<close>

definition identify_document_type :: "pyval \<Rightarrow> string" where
  "identify_document_type json_data =
     (case identify_body json_data of Inr t \<Rightarrow> t | Inl e \<Rightarrow> ''paystub'')"

section \<open>Field extraction\<close>

text \<open>
  The inner loop of \<^verbatim>\<open>extract_from_labels\<close> (lines 197-201): the cleaned values of the
  items of \<^verbatim>\<open>Values\<close> that are not \<^verbatim>\<open>"N/A"\<close>, in order.
\<close>

fun collect_valid :: "(pyval \<Rightarrow> string) \<Rightarrow> pyval list \<Rightarrow> error + string list" where
  "collect_valid rp [] = Inr []"
| "collect_valid rp (value_item # rest) =
     bind_err (py_get value_item ''Value'' (PStr ''N/A'')) (\<lambda>raw.
     bind_err (collect_valid rp rest) (\<lambda>valid_values.
       let v = get_field_value rp raw in
       if v \<noteq> [] \<and> v \<noteq> ''N/A'' then Inr (v # valid_values) else Inr valid_values))"

text \<open>
  Lines 194-203, what one label does to \<^verbatim>\<open>base_data\<close>, a dictionary from field names
  to strings written in place.
\<close>

definition label_step ::
  "(pyval \<Rightarrow> string) \<Rightarrow> pyval \<Rightarrow> (string \<times> string) list \<Rightarrow> (string \<times> string) list
     \<Rightarrow> error + (string \<times> string) list" where
  "label_step rp label label_map base_data =
     bind_err (py_get label ''LabelName'' PNone) (\<lambda>label_name.
     bind_err (py_lookup label_name label_map) (\<lambda>field.
       case field of
         None \<Rightarrow> Inr base_data
       | Some f \<Rightarrow>
           bind_err (py_get label ''Values'' PNone) (\<lambda>values.
             if py_truthy values then
               bind_err (py_iter values) (\<lambda>items.
               bind_err (collect_valid rp items) (\<lambda>valid_values.
                 case valid_values of
                   [] \<Rightarrow> Inr base_data
                 | v # vs \<Rightarrow> Inr (AList.update f v base_data)))
             else Inr base_data)))"

text \<open>
  Sizes, for the termination of the recursion below: the children of a label are
  inside the label, and the items of a list are inside the list.
\<close>

lemma size_map_of:
  "map_of kvs k = Some v \<Longrightarrow> size v < Suc (size_list (size_prod (\<lambda>x. 0) size) kvs)"
  by (induction kvs) (auto split: if_splits)

lemma size_child: "py_get label k PNone = Inr c \<Longrightarrow> py_truthy c \<Longrightarrow> size c < size label"
  by (auto simp: py_get_def split: pyval.splits option.splits dest: size_map_of)

lemma sum_size_le: "sum_list (map size (items :: pyval list)) \<le> size_list size items"
  by (induction items) auto

lemma sum_size_keys: "sum_list (map (\<lambda>kv. size (PStr (fst kv))) (kvs :: (string \<times> pyval) list)) = 0"
  by (induction kvs) auto

lemma size_iter:
  "py_iter labels = Inr items \<Longrightarrow>
     sum_list (map size items) < size labels \<or>
     (\<exists>s. labels = PStr s \<and> sum_list (map size items) = 0 \<and> length items = length s)"
  using sum_size_le [of items]
  by (auto simp: py_iter_def comp_def sum_size_keys split: pyval.splits)

text \<open>
  \<^verbatim>\<open>extract_from_labels\<close> (lines 191-206): the loop over the labels, each followed by
  the recursive call on its \<^verbatim>\<open>ChildLabels\<close> when they are present and not empty. The
  depth of the recursion is not bounded here (the interpreter's recursion limit is
  left out).
\<close>

function extract_from_labels ::
    "(pyval \<Rightarrow> string) \<Rightarrow> pyval \<Rightarrow> (string \<times> string) list \<Rightarrow> (string \<times> string) list
       \<Rightarrow> error + (string \<times> string) list"
  and extract_loop ::
    "(pyval \<Rightarrow> string) \<Rightarrow> pyval list \<Rightarrow> (string \<times> string) list \<Rightarrow> (string \<times> string) list
       \<Rightarrow> error + (string \<times> string) list"
where
  "extract_from_labels rp labels label_map base_data =
     (case py_iter labels of
        Inl e \<Rightarrow> Inl e
      | Inr items \<Rightarrow> extract_loop rp items label_map base_data)"
| "extract_loop rp [] label_map base_data = Inr base_data"
| "extract_loop rp (label # rest) label_map base_data =
     (case label_step rp label label_map base_data of
        Inl e \<Rightarrow> Inl e
      | Inr bd1 \<Rightarrow>
          (case py_get label ''ChildLabels'' PNone of
             Inl e \<Rightarrow> Inl e
           | Inr children \<Rightarrow>
               if py_truthy children then
                 (case extract_from_labels rp children label_map bd1 of
                    Inl e \<Rightarrow> Inl e
                  | Inr bd2 \<Rightarrow> extract_loop rp rest label_map bd2)
               else extract_loop rp rest label_map bd1))"
  by pat_completeness auto

termination
proof (relation "measures [
      (\<lambda>x. case x of Inl (rp, labels, lm, bd) \<Rightarrow> size labels
                    | Inr (rp, items, lm, bd) \<Rightarrow> sum_list (map size items)),
      (\<lambda>x. case x of Inl (rp, labels, lm, bd) \<Rightarrow> (case labels of PStr s \<Rightarrow> Suc (length s) | _ \<Rightarrow> 0)
                    | Inr (rp, items, lm, bd) \<Rightarrow> length items)]", goal_cases)
  case 1
  show ?case by simp
next
  case (2 rp labels label_map base_data items)
  then show ?case using size_iter [of labels items] by auto
next
  case (3 rp label rest label_map base_data bd1 children)
  then show ?case using size_child [of label "''ChildLabels''" children] by auto
next
  case (4 rp label rest label_map base_data bd1 children bd2)
  then show ?case by auto
next
  case (5 rp label rest label_map base_data bd1 children)
  then show ?case by auto
qed

declare extract_from_labels.simps [simp del] extract_loop.simps [simp del]

section \<open>Processing one raw record\<close>

text \<open>
  The date fields of a record (lines 170-189). \<^verbatim>\<open>base_data\<close> is written in place, so
  when \<^verbatim>\<open>parse_date\<close> raises, the handler returns the dictionary as written so far.
\<close>

fun parse_date_loop ::
  "(string \<Rightarrow> string option) \<Rightarrow> string list \<Rightarrow> (string \<times> string) list \<Rightarrow> (string \<times> string) list" where
  "parse_date_loop fb [] base_data = base_data"
| "parse_date_loop fb (field # rest) base_data =
     (case map_of base_data field of
        None \<Rightarrow> parse_date_loop fb rest base_data
      | Some v \<Rightarrow>
          if v \<noteq> ''N/A'' then
            (case parse_date fb v of
               Inr parsed_date \<Rightarrow> parse_date_loop fb rest (AList.update field parsed_date base_data)
             | Inl e \<Rightarrow> base_data)
          else parse_date_loop fb rest base_data)"

definition parse_date_fields ::
  "(string \<Rightarrow> string option) \<Rightarrow> (string \<times> string) list \<Rightarrow> string \<Rightarrow> (string \<times> string) list" where
  "parse_date_fields fb base_data doc_type =
     (let date_fields =
        (if doc_type = ''paystub'' then [''pay_period_end_date'', ''pay_period_start_date'']
         else if doc_type = ''1120'' then [''beginning_tax_year'', ''ending_tax_year'']
         else [])
      in parse_date_loop fb date_fields base_data)"

text \<open>\<^verbatim>\<open>base_data.update({...})\<close>: the pairs written in order.\<close>

definition dict_update :: "(string \<times> string) list \<Rightarrow> (string \<times> string) list \<Rightarrow> (string \<times> string) list" where
  "dict_update d kvs = foldl (\<lambda>acc kv. AList.update (fst kv) (snd kv) acc) d kvs"

text \<open>\<^verbatim>\<open>', '.join(xs)\<close>.\<close>

fun join_comma :: "string list \<Rightarrow> string" where
  "join_comma [] = []"
| "join_comma [x] = x"
| "join_comma (x # y # ys) = x @ '', '' @ join_comma (y # ys)"

text \<open>
  The third component of the result of \<^verbatim>\<open>extract_document_data\<close>: a text, or the text
  \<^verbatim>\<open>f"Error extracting data: {e}"\<close> of the outer handler, kept as the error \<open>e\<close>.
\<close>

datatype message = Text string | ErrorText error

text \<open>
  Lines 97-143: the required fields, the fields added to \<^verbatim>\<open>base_data\<close>, the skill
  name and the label map of a document type.
\<close>

definition type_schema ::
  "string \<Rightarrow> string list \<times> (string \<times> string) list \<times> string \<times> (string \<times> string) list" where
  "type_schema doc_type =
     (if doc_type = ''paystub'' then
        ([''employee_name'', ''employer_name'', ''pay_period_end_date'', ''pay_period_start_date'',
          ''year_to_date_earnings''],
         [(''employee_name'', ''N/A''), (''employer_name'', ''N/A''), (''pay_period_end_date'', ''N/A''),
          (''pay_period_start_date'', ''N/A''), (''year_to_date_earnings'', ''N/A'')],
         ''IC - Paystubs'',
         [(''Employee Name'', ''employee_name''), (''Employer Name'', ''employer_name''),
          (''Pay Period End Date'', ''pay_period_end_date''),
          (''Pay Period Start Date'', ''pay_period_start_date''),
          (''Year to Date Earnings'', ''year_to_date_earnings'')])
      else if doc_type = ''w2'' then
        ([''employee_name'', ''employer_name'', ''year''],
         [(''employee_name'', ''N/A''), (''employer_name'', ''N/A''), (''year'', ''N/A'')],
         ''IC - W2'',
         [(''Employee Name'', ''employee_name''), (''Employer Name'', ''employer_name''),
          (''Year'', ''year'')])
      else
        ([''name'', ''year'', ''beginning_tax_year'', ''ending_tax_year''],
         [(''name'', ''N/A''), (''year'', ''N/A''), (''beginning_tax_year'', ''N/A''),
          (''ending_tax_year'', ''N/A'')],
         ''2023 1120 Corporation1'',
         [(''Name'', ''name''), (''1120 Year'', ''year''),
          (''Beginning Date Of Tax Year'', ''beginning_tax_year''),
          (''Ending Date Of Tax Year'', ''ending_tax_year'')]))"

text \<open>
  Lines 145-150: the first skill whose \<^verbatim>\<open>SkillName\<close> equals the expected name has its
  labels extracted, and the loop stops. The result tells whether a skill was found.
\<close>

fun find_skill ::
  "(pyval \<Rightarrow> string) \<Rightarrow> pyval list \<Rightarrow> string \<Rightarrow> (string \<times> string) list \<Rightarrow> (string \<times> string) list
     \<Rightarrow> error + bool \<times> (string \<times> string) list" where
  "find_skill rp [] skill_name label_map base_data = Inr (False, base_data)"
| "find_skill rp (skill # rest) skill_name label_map base_data =
     bind_err (py_get skill ''SkillName'' PNone) (\<lambda>name.
       if name = PStr skill_name then
         bind_err (py_get skill ''Labels'' (PList [])) (\<lambda>labels.
         bind_err (extract_from_labels rp labels label_map base_data) (\<lambda>bd.
           Inr (True, bd)))
       else find_skill rp rest skill_name label_map base_data)"

text \<open>The body of the \<^verbatim>\<open>try\<close> of \<^verbatim>\<open>extract_document_data\<close> (lines 89-166).\<close>

definition extract_body ::
  "(pyval \<Rightarrow> string) \<Rightarrow> (string \<Rightarrow> string option) \<Rightarrow> pyval \<Rightarrow> string
     \<Rightarrow> error + (string \<times> string) list option \<times> string option \<times> message option" where
  "extract_body rp fb json_data filename =
     (let doc_type = identify_document_type json_data in
      bind_err (py_get json_data ''Meta'' (PDict [])) (\<lambda>meta.
      bind_err (py_get meta ''FileName'' (PStr filename)) (\<lambda>file_name.
        let base_data0 =
              [(''document_type'', doc_type),
               (''filename'', get_field_value rp file_name @ ''.json''),
               (''docId'', [])];
            (required_fields, defaults, skill_name, label_map) = type_schema doc_type;
            base_data1 = dict_update base_data0 defaults
        in
        bind_err (py_get json_data ''Summary'' (PList [])) (\<lambda>summary.
        bind_err (py_iter summary) (\<lambda>skills.
        bind_err (find_skill rp skills skill_name label_map base_data1) (\<lambda>(skill_found, base_data2).
          if \<not> skill_found then
            Inr (None, Some doc_type,
                 Some (Text (''Required skill '' @ [CHR 0x27] @ skill_name @ [CHR 0x27] @ '' not found'')))
          else
            let base_data3 = parse_date_fields fb base_data2 doc_type;
                missing_fields =
                  filter (\<lambda>field. map_of base_data3 field = Some ''N/A'' \<or> map_of base_data3 field = Some [])
                    required_fields
            in
            if missing_fields \<noteq> [] then
              Inr (None, Some doc_type, Some (Text (''Missing fields: '' @ join_comma missing_fields)))
            else
              Inr (Some (AList.update ''status'' ''original'' base_data3), Some doc_type, None)))))))"

text \<open>
  \<^verbatim>\<open>extract_document_data\<close> (lines 87-168): \<^verbatim>\<open>except Exception\<close> turns every error of
  the body into the result \<^verbatim>\<open>(None, None, message)\<close>.
\<close>

definition extract_document_data ::
  "(pyval \<Rightarrow> string) \<Rightarrow> (string \<Rightarrow> string option) \<Rightarrow> pyval \<Rightarrow> string
     \<Rightarrow> (string \<times> string) list option \<times> string option \<times> message option" where
  "extract_document_data rp fb json_data filename =
     (case extract_body rp fb json_data filename of
        Inr result \<Rightarrow> result
      | Inl e \<Rightarrow> (None, None, Some (ErrorText e)))"

section \<open>Grouping and duplicates\<close>

text \<open>The cleaned values of the listed fields of a document, read with \<^verbatim>\<open>doc[field]\<close>
  from left to right.\<close>

fun field_values :: "(pyval \<Rightarrow> string) \<Rightarrow> pyval \<Rightarrow> string list \<Rightarrow> error + string list" where
  "field_values rp doc [] = Inr []"
| "field_values rp doc (field # rest) =
     bind_err (py_getitem doc field) (\<lambda>v.
     bind_err (field_values rp doc rest) (\<lambda>vs.
       Inr (get_field_value rp v # vs)))"

text \<open>
  \<^verbatim>\<open>get_grouping_key\<close> (lines 250-280). A tuple of strings is a list of strings; the
  handler \<^verbatim>\<open>except Exception\<close> returns the tuple of \<^verbatim>\<open>"N/A"\<close> of the type.
\<close>

definition get_grouping_key :: "(pyval \<Rightarrow> string) \<Rightarrow> pyval \<Rightarrow> string \<Rightarrow> string list" where
  "get_grouping_key rp doc doc_type =
     (case
        (if doc_type = ''paystub'' then
           field_values rp doc [''employee_name'', ''employer_name'', ''pay_period_start_date'',
             ''pay_period_end_date'', ''year_to_date_earnings'']
         else if doc_type = ''w2'' then
           field_values rp doc [''employee_name'', ''employer_name'', ''year'']
         else
           field_values rp doc [''name'', ''year'', ''beginning_tax_year'', ''ending_tax_year''])
      of
        Inr key \<Rightarrow> key
      | Inl e \<Rightarrow>
          if doc_type = ''paystub'' then [''N/A'', ''N/A'', ''N/A'', ''N/A'', ''N/A'']
          else if doc_type = ''w2'' then [''N/A'', ''N/A'', ''N/A'']
          else [''N/A'', ''N/A'', ''N/A'', ''N/A''])"

text \<open>
  A canonical record, as \<^verbatim>\<open>extract_document_data\<close> builds it, is a dictionary whose
  values are all strings; \<open>doc_value\<close> is that dictionary as a Python value.
\<close>

definition doc_value :: "(string \<times> string) list \<Rightarrow> pyval" where
  "doc_value doc = PDict (map (\<lambda>kv. (fst kv, PStr (snd kv))) doc)"

text \<open>\<^verbatim>\<open>groups[key].append(doc)\<close> on a \<^verbatim>\<open>defaultdict(list)\<close>, which keeps its keys in the
  order of their first insertion.\<close>

fun add_to_group ::
  "string list \<Rightarrow> (string \<times> string) list \<Rightarrow> (string list \<times> (string \<times> string) list list) list
     \<Rightarrow> (string list \<times> (string \<times> string) list list) list" where
  "add_to_group key doc [] = [(key, [doc])]"
| "add_to_group key doc ((k, docs) # groups) =
     (if k = key then (k, docs @ [doc]) # groups else (k, docs) # add_to_group key doc groups)"

definition build_groups ::
  "(pyval \<Rightarrow> string) \<Rightarrow> string \<Rightarrow> (string \<times> string) list list
     \<Rightarrow> (string list \<times> (string \<times> string) list list) list" where
  "build_groups rp doc_type docs =
     foldl (\<lambda>groups doc. add_to_group (get_grouping_key rp (doc_value doc) doc_type) doc groups) [] docs"

text \<open>
  \<^verbatim>\<open>group_docs.sort(key=lambda x: x["filename"])\<close>: the keys are computed first
  (\<^verbatim>\<open>KeyError\<close> when a document has no file name), then the documents are sorted by
  their keys, documents with equal keys keeping their order. Strings compare
  character by character, a proper prefix before the longer string.
\<close>

definition sort_by_filename :: "(string \<times> string) list list \<Rightarrow> error + (string \<times> string) list list" where
  "sort_by_filename group_docs =
     (case those (map (\<lambda>doc. map_of doc ''filename'') group_docs) of
        None \<Rightarrow> Inl KeyError
      | Some keys \<Rightarrow> Inr (map snd (sort_key fst (zip keys group_docs))))"

text \<open>Lines 324-327: the copy of each document without its status, with the new status.\<close>

definition mark_statuses :: "(string \<times> string) list list \<Rightarrow> (string \<times> string) list list" where
  "mark_statuses group_docs =
     map (\<lambda>(i, doc). filter (\<lambda>kv. fst kv \<noteq> ''status'') doc @
                       [(''status'', if i = 0 then ''original'' else ''duplicate'')])
       (enumerate 0 group_docs)"

fun process_groups ::
  "(string list \<times> (string \<times> string) list list) list \<Rightarrow> (string \<times> string) list list
     \<Rightarrow> error + (string \<times> string) list list" where
  "process_groups [] processed_docs = Inr processed_docs"
| "process_groups ((key, group_docs) # groups) processed_docs =
     bind_err (sort_by_filename group_docs) (\<lambda>sorted_docs.
       process_groups groups (processed_docs @ mark_statuses sorted_docs))"

text \<open>
  Lines 317-327 of \<^verbatim>\<open>process_documents\<close>: the grouping stage for the documents of one
  type, giving \<^verbatim>\<open>processed_docs\<close>.
\<close>

definition dedup_docs ::
  "(pyval \<Rightarrow> string) \<Rightarrow> string \<Rightarrow> (string \<times> string) list list \<Rightarrow> error + (string \<times> string) list list" where
  "dedup_docs rp doc_type docs = process_groups (build_groups rp doc_type docs) []"

section \<open>The classifier's resolution order, as the specification words it\<close>

text \<open>
  Rule 2 on one lowered skill name: the substring \<^verbatim>\<open>1120\<close> first, then \<^verbatim>\<open>w2\<close> or
  \<^verbatim>\<open>w-2\<close>, then \<^verbatim>\<open>paystub\<close>. Rule 3 on one skill name: the three exact names.
\<close>

definition substring_kind :: "string \<Rightarrow> string option" where
  "substring_kind name =
     (if py_contains ''1120'' name then Some ''1120''
      else if py_contains ''w2'' name \<or> py_contains ''w-2'' name then Some ''w2''
      else if py_contains ''paystub'' name then Some ''paystub''
      else None)"

definition exact_kind :: "string \<Rightarrow> string option" where
  "exact_kind name =
     (if name = ''IC - 1120'' then Some ''1120''
      else if name = ''IC - W2'' then Some ''w2''
      else if name = ''IC - Paystubs'' then Some ''paystub''
      else None)"

text \<open>The first element of a sequence, in order, on which a rule gives a type.\<close>

fun first_match :: "('a \<Rightarrow> 'b option) \<Rightarrow> 'a list \<Rightarrow> 'b option" where
  "first_match f [] = None"
| "first_match f (x # xs) = (case f x of Some y \<Rightarrow> Some y | None \<Rightarrow> first_match f xs)"

text \<open>
  The four rules in order, on the type string of \<^verbatim>\<open>Meta\<close>, the title and the skill
  names in sequence order: the metadata scan for the indicators of \<^verbatim>\<open>w2\<close>, then for
  those of \<^verbatim>\<open>1120\<close>; the substring scan of the lowered skill names; the exact skill
  names; the default.
\<close>

definition classify :: "string \<Rightarrow> string \<Rightarrow> string list \<Rightarrow> string" where
  "classify meta_type title skill_names =
     (if list_ex (\<lambda>ind. py_contains ind (lower meta_type) \<or> py_contains ind (lower title))
           [''w2'', ''w-2'', ''income w-2''] then ''w2''
      else if list_ex (\<lambda>ind. py_contains ind (lower meta_type) \<or> py_contains ind (lower title))
           [''1120'', ''form 1120''] then ''1120''
      else
        (case first_match (\<lambda>name. substring_kind (lower name)) skill_names of
           Some t \<Rightarrow> t
         | None \<Rightarrow>
             (case first_match exact_kind skill_names of
                Some t \<Rightarrow> t
              | None \<Rightarrow> ''paystub'')))"

section \<open>Identity fields\<close>

text \<open>The identity fields of a document type, in the order of the grouping key, and
  the number of them.\<close>

definition identity_fields :: "string \<Rightarrow> string list" where
  "identity_fields doc_type =
     (if doc_type = ''paystub'' then
        [''employee_name'', ''employer_name'', ''pay_period_start_date'', ''pay_period_end_date'',
         ''year_to_date_earnings'']
      else if doc_type = ''w2'' then [''employee_name'', ''employer_name'', ''year'']
      else [''name'', ''year'', ''beginning_tax_year'', ''ending_tax_year''])"

definition key_arity :: "string \<Rightarrow> nat" where
  "key_arity doc_type = (if doc_type = ''paystub'' then 5 else if doc_type = ''w2'' then 3 else 4)"

text \<open>A document in which the lookup of some identity field fails.\<close>

definition lookup_fails :: "pyval \<Rightarrow> string \<Rightarrow> bool" where
  "lookup_fails doc doc_type = list_ex (\<lambda>field. isl (py_getitem doc field)) (identity_fields doc_type)"

section \<open>The label tree, as the specification describes it\<close>

text \<open>
  A label has a name, an optional sequence of value wrappers (each a dictionary that
  may hold a \<^verbatim>\<open>Value\<close>), an optional sequence of child labels, and any other entries.
  \<open>label_json\<close> is the dictionary of a label as the extractor receives it.
\<close>

datatype label =
  Label (label_name: string) (label_values: "(string \<times> pyval) list list option")
    (label_children: "label list option") (label_extras: "(string \<times> pyval) list")

fun label_json :: "label \<Rightarrow> pyval" where
  "label_json (Label name vals kids extras) =
     PDict ((''LabelName'', PStr name) #
            (case vals of None \<Rightarrow> [] | Some ws \<Rightarrow> [(''Values'', PList (map PDict ws))]) @
            (case kids of None \<Rightarrow> [] | Some ls \<Rightarrow> [(''ChildLabels'', PList (map label_json ls))]) @
            filter (\<lambda>kv. fst kv \<notin> {''LabelName'', ''Values'', ''ChildLabels''}) extras)"

text \<open>The labels of a tree in depth-first order: a label, then the labels below each of
  its children in sequence order.\<close>

fun dfs_order :: "label \<Rightarrow> label list" where
  "dfs_order (Label name vals kids extras) =
     Label name vals kids extras #
       concat (map dfs_order (case kids of None \<Rightarrow> [] | Some ls \<Rightarrow> ls))"

text \<open>The cleaned forms of the values of a label, in sequence order.\<close>

definition cleaned_values :: "(pyval \<Rightarrow> string) \<Rightarrow> label \<Rightarrow> string list" where
  "cleaned_values rp l =
     map (\<lambda>w. get_field_value rp (case map_of w ''Value'' of Some v \<Rightarrow> v | None \<Rightarrow> PNone))
       (case label_values l of None \<Rightarrow> [] | Some ws \<Rightarrow> ws)"

text \<open>
  The write of a visited label: when its name is in the label map and some value has
  a cleaned form other than \<^verbatim>\<open>"N/A"\<close>, the mapped field gets the first such value.
\<close>

definition label_write :: "(pyval \<Rightarrow> string) \<Rightarrow> (string \<times> string) list \<Rightarrow> label \<Rightarrow> (string \<times> string) option" where
  "label_write rp label_map l =
     (case map_of label_map (label_name l) of
        None \<Rightarrow> None
      | Some field \<Rightarrow>
          (case filter (\<lambda>v. v \<noteq> ''N/A'') (cleaned_values rp l) of
             [] \<Rightarrow> None
           | v # vs \<Rightarrow> Some (field, v)))"

text \<open>The writes of a forest, in the depth-first order of its labels.\<close>

definition forest_writes :: "(pyval \<Rightarrow> string) \<Rightarrow> (string \<times> string) list \<Rightarrow> label list \<Rightarrow> (string \<times> string) list" where
  "forest_writes rp label_map forest = List.map_filter (label_write rp label_map) (concat (map dfs_order forest))"

text \<open>Writes applied in order to a record, each overwriting its field.\<close>

definition apply_writes :: "(string \<times> string) list \<Rightarrow> (string \<times> string) list \<Rightarrow> (string \<times> string) list" where
  "apply_writes base_data ws = foldl (\<lambda>bd w. AList.update (fst w) (snd w) bd) base_data ws"

text \<open>The value of the last write to a field, if there is one.\<close>

definition last_write :: "string \<Rightarrow> (string \<times> string) list \<Rightarrow> string option" where
  "last_write field ws = (case rev (filter (\<lambda>w. fst w = field) ws) of [] \<Rightarrow> None | w # rest \<Rightarrow> Some (snd w))"

section \<open>Clusters of records\<close>

text \<open>
  The cleaned form of a string under the sentinel rule: trimmed, and \<^verbatim>\<open>"N/A"\<close> when
  the trimmed string is empty or one of the blanks.
\<close>

definition cleaned :: "string \<Rightarrow> string" where
  "cleaned s = (if strip s \<in> set ['''', '' '', ''N/A'', ''null'', ''None''] then ''N/A'' else strip s)"

text \<open>
  The grouping key of a record: the ordered tuple of the cleaned identity fields of
  its type.
\<close>

definition record_field :: "(string \<times> string) list \<Rightarrow> string \<Rightarrow> string" where
  "record_field doc field = (case map_of doc field of Some v \<Rightarrow> v | None \<Rightarrow> [])"

definition grouping_key :: "string \<Rightarrow> (string \<times> string) list \<Rightarrow> string list" where
  "grouping_key doc_type doc = map (\<lambda>field. cleaned (record_field doc field)) (identity_fields doc_type)"

text \<open>The records of a collection that share a grouping key.\<close>

definition cluster :: "string \<Rightarrow> string list \<Rightarrow> (string \<times> string) list list \<Rightarrow> (string \<times> string) list list" where
  "cluster doc_type k docs = filter (\<lambda>d. grouping_key doc_type d = k) docs"

text \<open>The file name of a record, and its status if it has one.\<close>

definition doc_filename :: "(string \<times> string) list \<Rightarrow> string" where
  "doc_filename doc = (case map_of doc ''filename'' of Some name \<Rightarrow> name | None \<Rightarrow> [])"

definition doc_status :: "(string \<times> string) list \<Rightarrow> string option" where
  "doc_status doc = map_of doc ''status''"

text \<open>A record without its status: the record that a status is then given to.\<close>

definition without_status :: "(string \<times> string) list \<Rightarrow> (string \<times> string) list" where
  "without_status doc = filter (\<lambda>kv. fst kv \<noteq> ''status'') doc"

text \<open>
  A valid canonical record of a type: its entries are the document type, the file
  name, the empty \<^verbatim>\<open>docId\<close>, the fields of the type and the status \<^verbatim>\<open>"original"\<close>, in
  the order in which \<^verbatim>\<open>extract_document_data\<close> writes them; every identity field holds
  a cleaned value that is not \<^verbatim>\<open>"N/A"\<close>.
\<close>

definition record_keys :: "string \<Rightarrow> string list" where
  "record_keys doc_type =
     [''document_type'', ''filename'', ''docId''] @ map fst (fst (snd (type_schema doc_type))) @ [''status'']"

definition canonical_record :: "string \<Rightarrow> (string \<times> string) list \<Rightarrow> bool" where
  "canonical_record doc_type doc =
     (map fst doc = record_keys doc_type \<and>
      map_of doc ''document_type'' = Some doc_type \<and>
      map_of doc ''docId'' = Some [] \<and>
      map_of doc ''status'' = Some ''original'' \<and>
      list_all (\<lambda>field. case map_of doc field of
                          None \<Rightarrow> False
                        | Some v \<Rightarrow> cleaned v = v \<and> v \<noteq> ''N/A'')
        (identity_fields doc_type))"

text \<open>
  A record while \<^verbatim>\<open>extract_document_data\<close> fills it: the entries written at lines
  91-95 and the fields of the type, every identity field holding a cleaned value.
\<close>

definition partial_record :: "string \<Rightarrow> (string \<times> string) list \<Rightarrow> bool" where
  "partial_record doc_type base_data =
     (map fst base_data =
        [''document_type'', ''filename'', ''docId''] @ map fst (fst (snd (type_schema doc_type))) \<and>
      map_of base_data ''document_type'' = Some doc_type \<and>
      map_of base_data ''docId'' = Some [] \<and>
      list_all (\<lambda>field. case map_of base_data field of None \<Rightarrow> False | Some v \<Rightarrow> cleaned v = v)
        (identity_fields doc_type))"

section \<open>The groups of the stage\<close>

text \<open>
  The key that the stage computes for a record, and the records of a collection
  that it puts under one key.
\<close>

definition key_of :: "(pyval \<Rightarrow> string) \<Rightarrow> string \<Rightarrow> (string \<times> string) list \<Rightarrow> string list" where
  "key_of rp doc_type doc = get_grouping_key rp (doc_value doc) doc_type"

definition stage_group ::
  "(pyval \<Rightarrow> string) \<Rightarrow> string \<Rightarrow> string list \<Rightarrow> (string \<times> string) list list \<Rightarrow> (string \<times> string) list list" where
  "stage_group rp doc_type k docs = filter (\<lambda>d. key_of rp doc_type d = k) docs"

text \<open>
  A collection in which a record is identified by its key and its file name: two
  records that agree on both are the same record.
\<close>

definition identified_by_name :: "(pyval \<Rightarrow> string) \<Rightarrow> string \<Rightarrow> (string \<times> string) list list \<Rightarrow> bool" where
  "identified_by_name rp doc_type docs =
     list_all (\<lambda>d1. list_all (\<lambda>d2.
        key_of rp doc_type d1 = key_of rp doc_type d2 \<and> doc_filename d1 = doc_filename d2 \<longrightarrow> d1 = d2)
        docs) docs"

text \<open>A record with its status replaced: the copy that lines 325-326 build.\<close>

definition set_status :: "string \<Rightarrow> (string \<times> string) list \<Rightarrow> (string \<times> string) list" where
  "set_status st doc = filter (\<lambda>kv. fst kv \<noteq> ''status'') doc @ [(''status'', st)]"

section \<open>Facts about strings\<close>

lemma strip_no_leading_space:
  "strip s \<noteq> [] \<Longrightarrow> \<not> is_space (hd (strip s))"
proof -
  assume ne: "strip s \<noteq> []"
  define u where "u = dropWhile is_space s"
  define w where "w = dropWhile is_space (rev u)"
  have sw: "strip s = rev w" by (simp add: strip_def u_def w_def)
  obtain t where t: "rev u = t @ w"
    by (metis takeWhile_dropWhile_id w_def)
  have u: "u = rev w @ rev t" using t by (metis rev_append rev_rev_ident)
  have "rev w \<noteq> []" using ne sw by simp
  then have "hd (rev w) = hd u" using u by simp
  moreover have "u \<noteq> []" using u \<open>rev w \<noteq> []\<close> by simp
  then have "\<not> is_space (hd u)" unfolding u_def by (metis hd_dropWhile)
  ultimately show ?thesis using sw by simp
qed

lemma strip_idem: "strip (strip s) = strip s"
proof -
  define w where "w = dropWhile is_space (rev (dropWhile is_space s))"
  have sw: "strip s = rev w" by (simp add: strip_def w_def)
  have a: "dropWhile is_space (rev w) = rev w"
  proof (cases "rev w = []")
    case True then show ?thesis by simp
  next
    case False
    then have "\<not> is_space (hd (rev w))" using strip_no_leading_space [of s] sw by simp
    then show ?thesis using False by (cases "rev w") simp_all
  qed
  have b: "dropWhile is_space w = w" unfolding w_def by (simp add: dropWhile_idem)
  have "strip (rev w) = rev w" by (simp add: strip_def a b)
  then show ?thesis by (simp add: sw)
qed

section \<open>Facts about digits and dates\<close>

lemma digit_val_lt: "is_digit c \<Longrightarrow> digit_val c < 10"
  by (auto simp: is_digit_def digit_val_def Let_def)

lemma digit_char_val: "is_digit c \<Longrightarrow> digit_char (digit_val c) = c"
  by (simp add: is_digit_def digit_val_def digit_char_def Let_def)

lemma is_digit_digit_char: "n < 10 \<Longrightarrow> is_digit (digit_char n)"
  by (simp add: is_digit_def digit_char_def Let_def)

lemma digits_of_small: "n < 10 \<Longrightarrow> digits_of n = [digit_char n]"
  by (simp add: digits_of.simps)

lemma digits_of_step: "0 < n \<Longrightarrow> d < 10 \<Longrightarrow> digits_of (10 * n + d) = digits_of n @ [digit_char d]"
  by (subst digits_of.simps) simp

lemma digits_of_all_digits: "list_all is_digit (digits_of n)"
proof (induction n rule: digits_of.induct)
  case (1 n)
  show ?case
  proof (cases "n < 10")
    case True then show ?thesis by (simp add: digits_of_small is_digit_digit_char)
  next
    case False
    with 1 show ?thesis by (subst digits_of.simps) (simp add: is_digit_digit_char)
  qed
qed




lemma digits_value_snoc: "digits_value (g @ [c]) = 10 * digits_value g + digit_val c"
  by (simp add: digits_value_def)




lemma take_digits_SomeD:
  "take_digits lo hi s = Some (g, r) \<Longrightarrow> list_all is_digit g \<and> lo \<le> length g \<and> length g \<le> hi"
  by (auto simp: take_digits_def Let_def list_all_iff split: if_splits dest: set_takeWhileD)

lemma py_int_digits: "g \<noteq> [] \<Longrightarrow> list_all is_digit g \<Longrightarrow> py_int g = Inr (int (digits_value g))"
  by (simp add: py_int_def)

lemma py_int_group:
  "take_digits lo hi s = Some (g, r) \<Longrightarrow> 0 < lo \<Longrightarrow> py_int g = Inr (int (digits_value g))"
  by (drule take_digits_SomeD) (auto intro: py_int_digits)


lemma pattern1_eq:
  "pattern1 t = Inr (case match_numeric t of None \<Rightarrow> None | Some (g1, g2, g3) \<Rightarrow>
     if 1 \<le> digits_value g1 \<and> digits_value g1 \<le> 12 \<and> 1 \<le> digits_value g2 \<and> digits_value g2 \<le> 31
        \<and> 1000 \<le> digits_value g3 \<and> digits_value g3 \<le> 9999
     then Some (fmt_date (int (digits_value g1)) (int (digits_value g2)) (int (digits_value g3)))
     else None)"
  by (auto simp: pattern1_def match_numeric_def bind_err_def py_int_group
      split: option.splits prod.splits)

lemma pattern2_eq:
  "pattern2 t = Inr (case match_numeric t of None \<Rightarrow> None | Some (g1, g2, g3) \<Rightarrow>
     if 1 \<le> digits_value g2 \<and> digits_value g2 \<le> 12 \<and> 1 \<le> digits_value g1 \<and> digits_value g1 \<le> 31
        \<and> 1000 \<le> digits_value g3 \<and> digits_value g3 \<le> 9999
     then Some (fmt_date (int (digits_value g2)) (int (digits_value g1)) (int (digits_value g3)))
     else None)"
  by (auto simp: pattern2_def match_numeric_def bind_err_def py_int_group
      split: option.splits prod.splits)

lemma pattern3_eq:
  "pattern3 t = Inr (case match_day_name_year t of None \<Rightarrow> None | Some (g1, g2, g3) \<Rightarrow>
     case map_of month_names (lower g2) of None \<Rightarrow> None | Some month \<Rightarrow>
     if 1 \<le> digits_value g1 \<and> digits_value g1 \<le> 31
     then Some (fmt_date month (int (digits_value g1)) (int (digits_value g3)))
     else None)"
  by (auto simp: pattern3_def match_day_name_year_def bind_err_def py_int_group
      split: option.splits prod.splits)

lemma pattern4_eq:
  "pattern4 t = Inr (case match_name_day_year t of None \<Rightarrow> None | Some (g1, g2, g3) \<Rightarrow>
     case map_of month_names (lower g1) of None \<Rightarrow> None | Some month \<Rightarrow>
     if 1 \<le> digits_value g2 \<and> digits_value g2 \<le> 31
     then Some (fmt_date month (int (digits_value g2)) (int (digits_value g3)))
     else None)"
  by (auto simp: pattern4_def match_name_day_year_def bind_err_def py_int_group
      split: option.splits prod.splits)

lemma pattern5_eq:
  "pattern5 t = Inr (case match_iso t of None \<Rightarrow> None | Some (g1, g2, g3) \<Rightarrow>
     if 1 \<le> digits_value g2 \<and> digits_value g2 \<le> 12 \<and> 1 \<le> digits_value g3 \<and> digits_value g3 \<le> 31
     then Some (fmt_date (int (digits_value g2)) (int (digits_value g3)) (int (digits_value g1)))
     else None)"
  by (auto simp: pattern5_def match_iso_def bind_err_def py_int_group
      split: option.splits prod.splits)

lemma month_names_range: "map_of month_names k = Some m \<Longrightarrow> 1 \<le> m \<and> m \<le> 12"
  by (auto simp: month_names_def split: if_splits)











lemma parse_date_try_cases:
  "\<exists>out. parse_date_try fb t = Inr out \<and>
     (pattern1 t = Inr (Some out) \<or> pattern2 t = Inr (Some out) \<or> pattern3 t = Inr (Some out) \<or>
      pattern4 t = Inr (Some out) \<or> pattern5 t = Inr (Some out) \<or> fb t = Some out \<or> out = t)"
proof -
  obtain r1 r2 r3 r4 r5 where r: "pattern1 t = Inr r1" "pattern2 t = Inr r2" "pattern3 t = Inr r3"
    "pattern4 t = Inr r4" "pattern5 t = Inr r5"
    using pattern1_eq pattern2_eq pattern3_eq pattern4_eq pattern5_eq by blast
  show ?thesis unfolding parse_date_try_def r
    by (cases r1; cases r2; cases r3; cases r4; cases r5; cases "fb t")
       (simp_all add: or_else_def fallback_def)
qed

lemma pattern12_day_first:
  "day_first t \<Longrightarrow> \<exists>g1 g2 g3. match_numeric t = Some (g1, g2, g3) \<and> pattern1 t = Inr None \<and>
     pattern2 t = Inr (Some (fmt_date (int (digits_value g2)) (int (digits_value g1)) (int (digits_value g3))))"
  by (auto simp: day_first_def pattern1_eq pattern2_eq split: option.splits)

lemma pattern2_not_day_first:
  "\<not> day_first t \<Longrightarrow> pattern2 t = Inr None \<or> (\<exists>out. pattern1 t = Inr (Some out))"
  by (auto simp: day_first_def pattern1_eq pattern2_eq split: option.splits)

lemma digit_not_space: "is_digit c \<Longrightarrow> \<not> is_space c"
  by (auto simp: is_digit_def is_space_def Let_def)

lemma slash_not_digit: "\<not> is_digit CHR ''/''"
  by (simp add: is_digit_def)

lemma digit_char_0: "digit_char 0 = CHR ''0''"
  unfolding digit_char_def by code_simp

lemma fmt_02d_digits:
  assumes "is_digit a" "is_digit b"
  shows "fmt_02d (int (digits_value [a, b])) = [a, b]"
proof -
  have v: "digits_value [a, b] = 10 * digit_val a + digit_val b" by (simp add: digits_value_def)
  have lt: "digit_val a < 10" "digit_val b < 10" using assms by (simp_all add: digit_val_lt)
  have ch: "digit_char (digit_val a) = a" "digit_char (digit_val b) = b"
    using assms by (simp_all add: digit_char_val)
  show ?thesis
  proof (cases "digit_val a = 0")
    case True
    then have a0: "a = CHR ''0''" using ch(1) digit_char_0 by simp
    have "digits_of (digits_value [a, b]) = [b]"
      unfolding v using True lt ch by (simp add: digits_of_small)
    then show ?thesis by (simp add: fmt_02d_def py_str_int_def a0 [symmetric])
  next
    case False
    then have "digits_of (10 * digit_val a + digit_val b) = digits_of (digit_val a) @ [digit_char (digit_val b)]"
      using lt by (intro digits_of_step) simp_all
    then have "digits_of (digits_value [a, b]) = [a, b]"
      unfolding v using lt ch by (simp add: digits_of_small)
    then show ?thesis by (simp add: fmt_02d_def py_str_int_def)
  qed
qed

lemma decimal_step: "(10::nat) * k \<le> 10 * x + d \<Longrightarrow> d < 10 \<Longrightarrow> k \<le> x"
  by arith

lemma str_year_digits:
  assumes "is_digit e" "is_digit f" "is_digit g" "is_digit h"
    and "1000 \<le> digits_value [e, f, g, h]"
  shows "py_str_int (int (digits_value [e, f, g, h])) = [e, f, g, h]"
proof -
  have lt: "digit_val e < 10" "digit_val f < 10" "digit_val g < 10" "digit_val h < 10"
    using assms by (simp_all add: digit_val_lt)
  have ch: "digit_char (digit_val e) = e" "digit_char (digit_val f) = f"
    "digit_char (digit_val g) = g" "digit_char (digit_val h) = h"
    using assms by (simp_all add: digit_char_val)
  have v1: "digits_value [e] = digit_val e" by (simp add: digits_value_def)
  have v2: "digits_value [e, f] = 10 * digits_value [e] + digit_val f"
    using digits_value_snoc [of "[e]" f] by simp
  have v3: "digits_value [e, f, g] = 10 * digits_value [e, f] + digit_val g"
    using digits_value_snoc [of "[e, f]" g] by simp
  have v4: "digits_value [e, f, g, h] = 10 * digits_value [e, f, g] + digit_val h"
    using digits_value_snoc [of "[e, f, g]" h] by simp
  have p3: "100 \<le> digits_value [e, f, g]"
    using assms(5) lt(4) decimal_step [of 100 "digits_value [e, f, g]" "digit_val h"] by (simp add: v4)
  have p2: "10 \<le> digits_value [e, f]"
    using p3 lt(3) decimal_step [of 10 "digits_value [e, f]" "digit_val g"] by (simp add: v3)
  have p1: "1 \<le> digits_value [e]"
    using p2 lt(2) decimal_step [of 1 "digits_value [e]" "digit_val f"] by (simp add: v2)
  have pos: "0 < digits_value [e]" "0 < digits_value [e, f]" "0 < digits_value [e, f, g]"
    using p1 p2 p3 by simp_all
  have d1: "digits_of (digits_value [e]) = [e]" using lt ch by (simp add: v1 digits_of_small)
  have d2: "digits_of (digits_value [e, f]) = [e, f]"
    unfolding v2 using digits_of_step [OF pos(1) lt(2)] d1 ch by simp
  have d3: "digits_of (digits_value [e, f, g]) = [e, f, g]"
    unfolding v3 using digits_of_step [OF pos(2) lt(3)] d2 ch by simp
  have d4: "digits_of (digits_value [e, f, g, h]) = [e, f, g, h]"
    unfolding v4 using digits_of_step [OF pos(3) lt(4)] d3 ch by simp
  show ?thesis by (simp add: py_str_int_def d4)
qed

lemma length_10_cases:
  assumes "length s = 10"
  obtains x0 x1 x2 x3 x4 x5 x6 x7 x8 x9 where "s = [x0, x1, x2, x3, x4, x5, x6, x7, x8, x9]"
proof -
  from assms have "\<exists>x0 x1 x2 x3 x4 x5 x6 x7 x8 x9. s = [x0, x1, x2, x3, x4, x5, x6, x7, x8, x9]"
    by (simp add: numeral_eq_Suc length_Suc_conv) blast
  then show ?thesis using that by blast
qed

lemma parse_date_fixes_normalized:
  assumes "is_normalized s"
  shows "parse_date fb s = Inr s"
proof -
  from assms have len: "length s = 10" by (simp add: is_normalized_def is_mmddyyyy_def)
  then obtain x0 x1 x2 x3 x4 x5 x6 x7 x8 x9 where s: "s = [x0, x1, x2, x3, x4, x5, x6, x7, x8, x9]"
    by (rule length_10_cases)
  from assms have d: "is_digit x0" "is_digit x1" "is_digit x3" "is_digit x4"
      "is_digit x6" "is_digit x7" "is_digit x8" "is_digit x9"
    and sl: "x2 = CHR ''/''" "x5 = CHR ''/''"
    and rg: "1 \<le> digits_value [x0, x1]" "digits_value [x0, x1] \<le> 12"
      "1 \<le> digits_value [x3, x4]" "digits_value [x3, x4] \<le> 31"
      "1000 \<le> digits_value [x6, x7, x8, x9]" "digits_value [x6, x7, x8, x9] \<le> 9999"
    by (simp_all add: is_normalized_def is_mmddyyyy_def s)
  have st: "strip s = s"
    using digit_not_space [OF d(1)] digit_not_space [OF d(8)] by (simp add: strip_def s)
  have ne: "\<not> (s = [] \<or> s = ''N/A'')" by (simp add: s)
  have m: "match_numeric s = Some ([x0, x1], [x3, x4], [x6, x7, x8, x9])"
    using d slash_not_digit
    by (simp add: s sl match_numeric_def take_digits_def take_sep_def at_end_def)
  have p1: "pattern1 s = Inr (Some s)"
    unfolding pattern1_eq m using rg
    by (simp add: fmt_date_def fmt_02d_digits d str_year_digits) (simp add: s sl)
  show ?thesis using ne by (simp add: parse_date_def st parse_date_try_def p1 or_else_def)
qed

section \<open>Facts about the classifier, the record processor and the grouping key\<close>

lemma scan_skill_names_kinds:
  "scan_skill_names skills = Inr (Some t) \<Longrightarrow> t \<in> {''paystub'', ''w2'', ''1120''}"
  by (induction skills) (auto simp: bind_err_def split: sum.splits if_splits)

lemma match_skill_names_kinds:
  "match_skill_names skills = Inr (Some t) \<Longrightarrow> t \<in> {''paystub'', ''w2'', ''1120''}"
  by (induction skills) (auto simp: bind_err_def split: sum.splits if_splits)

lemma identify_body_kinds:
  "identify_body j = Inr t \<Longrightarrow> t \<in> {''paystub'', ''w2'', ''1120''}"
  unfolding identify_body_def
  by (auto simp: bind_err_def split: sum.splits if_splits option.splits
      dest: scan_skill_names_kinds match_skill_names_kinds)

lemma scan_skill_names_named:
  "map (\<lambda>s. py_get s ''SkillName'' (PStr [])) skills = map (\<lambda>n. Inr (PStr n)) names \<Longrightarrow>
   scan_skill_names skills = Inr (first_match (\<lambda>name. substring_kind (lower name)) names)"
proof (induction skills arbitrary: names)
  case Nil then show ?case by simp
next
  case (Cons s skills)
  then obtain n ns where n: "names = n # ns" by (cases names) auto
  with Cons.prems have h: "py_get s ''SkillName'' (PStr []) = Inr (PStr n)"
    "map (\<lambda>s. py_get s ''SkillName'' (PStr [])) skills = map (\<lambda>n. Inr (PStr n)) ns" by auto
  show ?case using Cons.IH [OF h(2)] h(1)
    by (simp add: n bind_err_def py_lower_def substring_kind_def)
qed

lemma match_skill_names_named:
  "map (\<lambda>s. py_get s ''SkillName'' (PStr [])) skills = map (\<lambda>n. Inr (PStr n)) names \<Longrightarrow>
   match_skill_names skills = Inr (first_match exact_kind names)"
proof (induction skills arbitrary: names)
  case Nil then show ?case by simp
next
  case (Cons s skills)
  then obtain n ns where n: "names = n # ns" by (cases names) auto
  with Cons.prems have h: "py_get s ''SkillName'' (PStr []) = Inr (PStr n)"
    "map (\<lambda>s. py_get s ''SkillName'' (PStr [])) skills = map (\<lambda>n. Inr (PStr n)) ns" by auto
  show ?case using Cons.IH [OF h(2)] h(1)
    by (simp add: n bind_err_def exact_kind_def)
qed

lemma identify_body_classify:
  assumes "py_get j ''Meta'' (PDict []) = Inr m"
    and "py_get m ''Type'' (PStr []) = Inr (PStr meta_type)"
    and "py_get j ''Title'' (PStr []) = Inr (PStr title)"
    and "py_get j ''Summary'' (PList []) = Inr (PList skills)"
    and "map (\<lambda>s. py_get s ''SkillName'' (PStr [])) skills = map (\<lambda>n. Inr (PStr n)) names"
  shows "identify_body j = Inr (classify meta_type title names)"
  unfolding identify_body_def classify_def
  by (simp add: assms(1-4) bind_err_def py_lower_def py_iter_def any_indicator_def
      scan_skill_names_named [OF assms(5)] match_skill_names_named [OF assms(5)]
      split: option.splits)

lemma py_get_dict: "py_get d k x = Inr v \<Longrightarrow> \<exists>v'. py_get d k' x' = Inr v'"
  by (auto simp: py_get_def split: pyval.splits)

lemma find_skill_absent:
  "\<forall>s\<in>set skills. \<exists>n. py_get s ''SkillName'' PNone = Inr n \<and> n \<noteq> PStr skill_name \<Longrightarrow>
   find_skill rp skills skill_name label_map base_data = Inr (False, base_data)"
  by (induction skills) (auto simp: bind_err_def)

lemma identify_income_w2:
  assumes "py_get j ''Meta'' (PDict []) = Inr m"
    and "py_get m ''Type'' (PStr []) = Inr (PStr ''Income W-2'')"
    and "py_get j ''Title'' (PStr []) = Inr (PStr title)"
  shows "identify_document_type j = ''w2''"
proof -
  have "lower ''Income W-2'' = ''income w-2''" by code_simp
  then show ?thesis
    by (simp add: identify_document_type_def identify_body_def assms bind_err_def py_lower_def
        any_indicator_def)
qed

lemma field_values_ok:
  "\<forall>f\<in>set fields. \<not> isl (py_getitem doc f) \<Longrightarrow>
   field_values rp doc fields = Inr (map (\<lambda>f. get_field_value rp (projr (py_getitem doc f))) fields)"
  by (induction fields) (auto simp: bind_err_def split: sum.splits)

lemma field_values_fails:
  "\<exists>f\<in>set fields. isl (py_getitem doc f) \<Longrightarrow> isl (field_values rp doc fields)"
proof (induction fields)
  case Nil then show ?case by simp
next
  case (Cons a fields)
  show ?case
  proof (cases "py_getitem doc a")
    case (Inl e) then show ?thesis by (simp add: bind_err_def)
  next
    case (Inr v)
    with Cons.prems have "\<exists>f\<in>set fields. isl (py_getitem doc f)" by auto
    then have "isl (field_values rp doc fields)" by (rule Cons.IH)
    then show ?thesis using Inr by (auto simp: bind_err_def split: sum.splits)
  qed
qed

lemma get_grouping_key_fields:
  "get_grouping_key rp doc doc_type =
     (case field_values rp doc (identity_fields doc_type) of
        Inr key \<Rightarrow> key
      | Inl e \<Rightarrow> replicate (key_arity doc_type) ''N/A'')"
proof -
  have r: "replicate 5 x = [x, x, x, x, x]" "replicate 3 x = [x, x, x]" "replicate 4 x = [x, x, x, x]"
    for x :: string by (simp_all add: numeral_eq_Suc)
  show ?thesis
    unfolding get_grouping_key_def identity_fields_def key_arity_def
    by (cases "doc_type = ''paystub''"; cases "doc_type = ''w2''") (simp_all add: r del: field_values.simps split: sum.splits)
qed

section \<open>Facts about the extraction\<close>

lemma get_field_value_nonempty: "get_field_value rp v \<noteq> []"
  by (auto simp: get_field_value_def)

lemma strip_sentinel: "strip ''N/A'' = ''N/A''"
  by (simp add: strip_def is_space_def)

lemma get_field_value_sentinel:
  "get_field_value rp (PStr ''N/A'') = ''N/A''" "get_field_value rp PNone = ''N/A''"
  by (simp_all add: get_field_value_def strip_sentinel)

lemma collect_valid_wrappers:
  "collect_valid rp (map PDict ws) =
     Inr (filter (\<lambda>v. v \<noteq> ''N/A'')
       (map (\<lambda>w. get_field_value rp (case map_of w ''Value'' of Some v \<Rightarrow> v | None \<Rightarrow> PNone)) ws))"
  by (induction ws)
     (auto simp: bind_err_def py_get_def Let_def get_field_value_nonempty get_field_value_sentinel
       split: option.splits)

lemma map_of_reserved:
  "k \<in> {''LabelName'', ''Values'', ''ChildLabels''} \<Longrightarrow>
   map_of (filter (\<lambda>kv. fst kv \<notin> {''LabelName'', ''Values'', ''ChildLabels''}) extras) k = None"
  by (induction extras) auto

lemma label_step_json:
  "label_step rp (label_json l) label_map base_data =
     Inr (case label_write rp label_map l of None \<Rightarrow> base_data | Some w \<Rightarrow> AList.update (fst w) (snd w) base_data)"
proof (cases l)
  case (Label name vals kids extras)
  have ex: "map_of (filter (\<lambda>kv. fst kv \<notin> {''LabelName'', ''Values'', ''ChildLabels''}) extras) ''Values'' = None"
    by (rule map_of_reserved) simp
  show ?thesis
  proof (cases vals)
    case None
    then show ?thesis using ex
      by (simp add: Label label_step_def py_get_def bind_err_def py_lookup_def label_write_def
          cleaned_values_def map_add_def split: option.splits)
  next
    case (Some ws)
    then show ?thesis
      by (cases "ws = []")
         (auto simp: Label label_step_def py_get_def bind_err_def py_lookup_def label_write_def
          cleaned_values_def py_iter_def collect_valid_wrappers simp del: collect_valid.simps
          split: option.splits list.splits)
  qed
qed

lemma children_json:
  "py_get (label_json l) ''ChildLabels'' PNone =
     Inr (case label_children l of None \<Rightarrow> PNone | Some ls \<Rightarrow> PList (map label_json ls))"
proof (cases l)
  case (Label name vals kids extras)
  have ex: "map_of (filter (\<lambda>kv. fst kv \<notin> {''LabelName'', ''Values'', ''ChildLabels''}) extras) ''ChildLabels'' = None"
    by (rule map_of_reserved) simp
  show ?thesis using ex
    by (cases vals; cases kids) (simp_all add: Label py_get_def map_add_def)
qed


lemma map_filter_append: "List.map_filter f (xs @ ys) = List.map_filter f xs @ List.map_filter f ys"
  by (simp add: List.map_filter_def)

lemma apply_writes_append: "apply_writes bd (ws @ ws') = apply_writes (apply_writes bd ws) ws'"
  by (simp add: apply_writes_def)

lemma apply_writes_own:
  "(case label_write rp lm l of None \<Rightarrow> bd | Some w \<Rightarrow> AList.update (fst w) (snd w) bd) =
     apply_writes bd (List.map_filter (label_write rp lm) [l])"
  by (simp add: apply_writes_def List.map_filter_def split: option.splits)

lemma extract_loop_labels:
  assumes "\<And>l bd rest. l \<in> set ls \<Longrightarrow>
     extract_loop rp (label_json l # rest) lm bd =
       extract_loop rp rest lm (apply_writes bd (List.map_filter (label_write rp lm) (dfs_order l)))"
  shows "extract_loop rp (map label_json ls @ rest) lm bd =
       extract_loop rp rest lm (apply_writes bd (List.map_filter (label_write rp lm) (concat (map dfs_order ls))))"
  using assms
proof (induction ls arbitrary: bd)
  case Nil
  then show ?case by (simp add: apply_writes_def List.map_filter_def)
next
  case (Cons l ls)
  have "extract_loop rp (map label_json (l # ls) @ rest) lm bd =
        extract_loop rp (map label_json ls @ rest) lm
          (apply_writes bd (List.map_filter (label_write rp lm) (dfs_order l)))"
    using Cons.prems [of l "map label_json ls @ rest" bd] by simp
  also have "\<dots> = extract_loop rp rest lm
      (apply_writes (apply_writes bd (List.map_filter (label_write rp lm) (dfs_order l)))
         (List.map_filter (label_write rp lm) (concat (map dfs_order ls))))"
    by (rule Cons.IH) (simp add: Cons.prems)
  finally show ?case by (simp add: map_filter_append apply_writes_append)
qed

lemma extract_from_labels_list:
  "extract_from_labels rp (PList xs) lm bd = extract_loop rp xs lm bd"
  by (simp add: extract_from_labels.simps py_iter_def)

lemma extract_loop_label:
  "extract_loop rp (label_json l # rest) lm bd =
     extract_loop rp rest lm (apply_writes bd (List.map_filter (label_write rp lm) (dfs_order l)))"
proof (induction l arbitrary: bd rest)
  case (Label name vals kids extras)
  let ?l = "Label name vals kids extras"
  define bd1 where "bd1 = apply_writes bd (List.map_filter (label_write rp lm) [?l])"
  define c where "c = (case kids of None \<Rightarrow> PNone | Some ls \<Rightarrow> PList (map label_json ls))"
  have step: "label_step rp (label_json ?l) lm bd = Inr bd1"
    unfolding bd1_def by (simp only: label_step_json apply_writes_own)
  have kids_json: "py_get (label_json ?l) ''ChildLabels'' PNone = Inr c"
    unfolding c_def using children_json [of ?l] by simp
  have unfold: "extract_loop rp (label_json ?l # rest) lm bd =
      (if py_truthy c then
         (case extract_from_labels rp c lm bd1 of
            Inl e \<Rightarrow> Inl e
          | Inr bd2 \<Rightarrow> extract_loop rp rest lm bd2)
       else extract_loop rp rest lm bd1)"
    by (simp only: extract_loop.simps step kids_json sum.case)
  show ?case
  proof (cases "\<exists>ls. kids = Some ls \<and> ls \<noteq> []")
    case False
    then have "\<not> py_truthy c" by (cases kids) (auto simp: c_def)
    moreover from False have "dfs_order ?l = [?l]" by (cases kids) auto
    ultimately show ?thesis by (simp only: unfold bd1_def if_False)
  next
    case True
    then obtain ls where ls: "kids = Some ls" "ls \<noteq> []" by blast
    have ih: "extract_loop rp (label_json l # rest') lm bd' =
       extract_loop rp rest' lm (apply_writes bd' (List.map_filter (label_write rp lm) (dfs_order l)))"
      if "l \<in> set ls" for l bd' rest'
      using that ls by (intro Label.IH [of ls l]) simp_all
    have "extract_loop rp (map label_json ls @ []) lm bd1 =
        extract_loop rp [] lm
          (apply_writes bd1 (List.map_filter (label_write rp lm) (concat (map dfs_order ls))))"
      by (rule extract_loop_labels) (rule ih)
    then have below: "extract_from_labels rp c lm bd1 =
        Inr (apply_writes bd1 (List.map_filter (label_write rp lm) (concat (map dfs_order ls))))"
      by (simp add: c_def ls extract_from_labels_list extract_loop.simps)
    have truthy: "py_truthy c" by (simp add: c_def ls)
    have all: "List.map_filter (label_write rp lm) (dfs_order ?l) =
        List.map_filter (label_write rp lm) [?l] @
        List.map_filter (label_write rp lm) (concat (map dfs_order ls))"
      by (simp add: ls List.map_filter_def)
    have "extract_loop rp (label_json ?l # rest) lm bd =
        extract_loop rp rest lm
          (apply_writes bd1 (List.map_filter (label_write rp lm) (concat (map dfs_order ls))))"
      by (simp only: unfold truthy below if_True sum.case)
    also have "apply_writes bd1 (List.map_filter (label_write rp lm) (concat (map dfs_order ls))) =
        apply_writes bd (List.map_filter (label_write rp lm) (dfs_order ?l))"
      unfolding bd1_def all by (rule apply_writes_append [symmetric])
    finally show ?thesis .
  qed
qed

lemma last_write_snoc:
  "last_write field (ws @ [w]) = (if fst w = field then Some (snd w) else last_write field ws)"
  by (simp add: last_write_def)

lemma map_of_apply_writes:
  "map_of (apply_writes bd ws) field =
     (case last_write field ws of None \<Rightarrow> map_of bd field | Some v \<Rightarrow> Some v)"
proof (induction ws rule: rev_induct)
  case Nil
  then show ?case by (simp add: apply_writes_def last_write_def)
next
  case (snoc w ws)
  have "apply_writes bd (ws @ [w]) = AList.update (fst w) (snd w) (apply_writes bd ws)"
    by (simp add: apply_writes_def)
  then show ?case using snoc by (simp add: last_write_snoc update_conv')
qed

section \<open>Facts about grouping\<close>

lemma map_of_without: "map_of (filter (\<lambda>kv. fst kv \<noteq> s) d) s = None"
  by (induction d) auto

lemma map_of_set_status:
  "map_of (set_status st d) k = (if k = ''status'' then Some st else map_of d k)"
  by (induction d) (auto simp: set_status_def map_add_def map_of_without split: option.splits)

lemma doc_status_set_status: "doc_status (set_status st d) = Some st"
  by (simp add: doc_status_def map_of_set_status)

lemma doc_filename_set_status: "doc_filename (set_status st d) = doc_filename d"
  by (simp add: doc_filename_def map_of_set_status)

lemma without_status_set_status: "without_status (set_status st d) = without_status d"
  by (simp add: without_status_def set_status_def)

lemma py_getitem_doc_value:
  "py_getitem (doc_value d) f = (case map_of d f of Some v \<Rightarrow> Inr (PStr v) | None \<Rightarrow> Inl KeyError)"
proof -
  have "map_of (map (\<lambda>kv. (fst kv, PStr (snd kv))) d) f = map_option PStr (map_of d f)"
    by (induction d) auto
  then show ?thesis by (simp add: py_getitem_def doc_value_def split: option.splits)
qed

lemma field_values_cong:
  "\<forall>f\<in>set fields. map_of d f = map_of d' f \<Longrightarrow>
   field_values rp (doc_value d) fields = field_values rp (doc_value d') fields"
  by (induction fields) (simp_all add: py_getitem_doc_value)

lemma status_not_identity: "''status'' \<notin> set (identity_fields ty)"
  by (simp add: identity_fields_def)

lemma key_of_set_status: "key_of rp ty (set_status st d) = key_of rp ty d"
proof -
  have "\<forall>f\<in>set (identity_fields ty). map_of (set_status st d) f = map_of d f"
    using status_not_identity [of ty] by (auto simp: map_of_set_status)
  then have "field_values rp (doc_value (set_status st d)) (identity_fields ty) =
      field_values rp (doc_value d) (identity_fields ty)"
    by (rule field_values_cong)
  then show ?thesis
    by (simp add: key_of_def get_grouping_key_fields)
qed

lemma enumerate_later:
  "0 < n \<Longrightarrow>
   map (\<lambda>(i, doc). filter (\<lambda>kv. fst kv \<noteq> ''status'') doc @
          [(''status'', if i = 0 then ''original'' else ''duplicate'')]) (enumerate n ds) =
   map (set_status ''duplicate'') ds"
  by (induction ds arbitrary: n) (simp_all add: set_status_def)

lemma mark_statuses_Nil: "mark_statuses [] = []"
  by (simp add: mark_statuses_def)

lemma mark_statuses_Cons:
  "mark_statuses (d # ds) = set_status ''original'' d # map (set_status ''duplicate'') ds"
  by (simp add: mark_statuses_def enumerate_later) (simp add: set_status_def)

lemma sort_decorated: "map snd (sort_key fst (zip (map f g) g)) = sort_key f g"
proof (induction g)
  case Nil then show ?case by simp
next
  case (Cons d g)
  have ins: "map snd (insort_key fst (f d, d) ps) = insort_key f d (map snd ps)"
    if "\<forall>p\<in>set ps. fst p = f (snd p)" for ps
    using that by (induction ps) auto
  have "\<forall>p\<in>set (sort_key fst (zip (map f g) g)). fst p = f (snd p)"
    by (auto simp: in_set_zip)
  then show ?case using Cons by (simp add: ins)
qed

lemma sort_by_filename_ok:
  assumes "\<forall>d\<in>set g. map_of d ''filename'' \<noteq> None"
  shows "sort_by_filename g = Inr (sort_key doc_filename g)"
proof -
  have "those (map (\<lambda>doc. map_of doc ''filename'') g) = Some (map doc_filename g)"
    using assms by (induction g) (auto simp: doc_filename_def)
  then show ?thesis by (simp add: sort_by_filename_def sort_decorated)
qed


lemma process_groups_ok:
  assumes "\<forall>(k, g)\<in>set groups. \<forall>d\<in>set g. map_of d ''filename'' \<noteq> None"
  shows "process_groups groups acc =
     Inr (acc @ concat (map (\<lambda>kg. mark_statuses (sort_key doc_filename (snd kg))) groups))"
  using assms
proof (induction groups arbitrary: acc)
  case Nil then show ?case by simp
next
  case (Cons kg groups)
  obtain k g where kg: "kg = (k, g)" by (cases kg)
  have "sort_by_filename g = Inr (sort_key doc_filename g)"
    using Cons.prems by (intro sort_by_filename_ok) (auto simp: kg)
  moreover have "process_groups groups acc' =
     Inr (acc' @ concat (map (\<lambda>kg. mark_statuses (sort_key doc_filename (snd kg))) groups))" for acc'
    using Cons.prems by (intro Cons.IH) auto
  ultimately show ?case by (simp add: kg bind_err_def)
qed

lemma add_to_group_map_of:
  "map_of (add_to_group k d gs) k' =
     (if k' = k then Some ((case map_of gs k of None \<Rightarrow> [] | Some g \<Rightarrow> g) @ [d]) else map_of gs k')"
  by (induction gs) auto

lemma add_to_group_keys:
  "map fst (add_to_group k d gs) = (if k \<in> fst ` set gs then map fst gs else map fst gs @ [k])"
  by (induction gs) (auto simp: rev_image_eqI)

lemma add_to_group_distinct:
  "distinct (map fst gs) \<Longrightarrow> distinct (map fst (add_to_group k d gs))"
  by (simp add: add_to_group_keys)

lemma grouping_invariant:
  assumes "distinct (map fst gs)"
  shows "distinct (map fst (foldl (\<lambda>groups doc. add_to_group (key doc) doc groups) gs docs)) \<and>
     (\<forall>k. map_of (foldl (\<lambda>groups doc. add_to_group (key doc) doc groups) gs docs) k =
        (case map_of gs k of
           None \<Rightarrow> (if filter (\<lambda>d. key d = k) docs = [] then None
                     else Some (filter (\<lambda>d. key d = k) docs))
         | Some g \<Rightarrow> Some (g @ filter (\<lambda>d. key d = k) docs)))"
  using assms
proof (induction docs arbitrary: gs)
  case Nil
  then show ?case by (auto split: option.splits)
next
  case (Cons d docs)
  have "distinct (map fst (add_to_group (key d) d gs))"
    using Cons.prems by (rule add_to_group_distinct)
  from Cons.IH [OF this] show ?case
    by (auto simp: add_to_group_map_of split: option.splits)
qed

lemma build_groups_map_of:
  "distinct (map fst (build_groups rp ty docs)) \<and>
   (\<forall>k. map_of (build_groups rp ty docs) k =
      (if stage_group rp ty k docs = [] then None else Some (stage_group rp ty k docs)))"
  using grouping_invariant [of "[]" "key_of rp ty" docs]
  by (simp add: build_groups_def stage_group_def key_of_def)

lemma filter_concat_groups:
  assumes "distinct (map fst groups)"
    and "\<forall>(k, g)\<in>set groups. \<forall>d\<in>set (h g). key d = k"
  shows "filter (\<lambda>d. key d = k) (concat (map (\<lambda>kg. h (snd kg)) groups)) =
     (case map_of groups k of None \<Rightarrow> [] | Some g \<Rightarrow> h g)"
  using assms
proof (induction groups)
  case Nil then show ?case by simp
next
  case (Cons kg groups)
  obtain k' g where kg: "kg = (k', g)" by (cases kg)
  have ih: "filter (\<lambda>d. key d = k) (concat (map (\<lambda>kg. h (snd kg)) groups)) =
     (case map_of groups k of None \<Rightarrow> [] | Some g \<Rightarrow> h g)"
    using Cons.prems by (intro Cons.IH) auto
  have all: "\<forall>d\<in>set (h g). key d = k'" using Cons.prems(2) by (simp add: kg)
  show ?case
  proof (cases "k' = k")
    case True
    then have "map_of groups k = None"
      using Cons.prems(1) by (auto simp: kg map_of_eq_None_iff)
    moreover have "filter (\<lambda>d. key d = k) (h g) = h g" using all True by (simp add: filter_id_conv)
    ultimately show ?thesis using ih True by (simp add: kg)
  next
    case False
    then have "filter (\<lambda>d. key d = k) (h g) = []" using all by (auto simp: filter_empty_conv)
    then show ?thesis using ih False by (simp add: kg)
  qed
qed


lemma mark_statuses_elem:
  "d' \<in> set (mark_statuses g) \<Longrightarrow> \<exists>st d. d \<in> set g \<and> d' = set_status st d"
  by (cases g) (auto simp: mark_statuses_Nil mark_statuses_Cons)

lemma dedup_docs_groups:
  assumes "\<forall>d\<in>set docs. map_of d ''filename'' \<noteq> None"
  shows "\<exists>out. dedup_docs rp ty docs = Inr out \<and>
     (\<forall>k. stage_group rp ty k out = mark_statuses (sort_key doc_filename (stage_group rp ty k docs)))"
proof -
  let ?G = "build_groups rp ty docs"
  let ?H = "\<lambda>g. mark_statuses (sort_key doc_filename g)"
  have dist: "distinct (map fst ?G)"
    and look: "\<And>k. map_of ?G k = (if stage_group rp ty k docs = [] then None else Some (stage_group rp ty k docs))"
    using build_groups_map_of [of rp ty docs] by simp_all
  have grp: "g = stage_group rp ty k docs" if "(k, g) \<in> set ?G" for k g
  proof -
    from that dist have "map_of ?G k = Some g" by simp
    then show ?thesis by (simp add: look split: if_splits)
  qed
  have named: "map_of d ''filename'' \<noteq> None" if "(k, g) \<in> set ?G" "d \<in> set g" for k g d
  proof -
    from that(2) grp [OF that(1)] have "d \<in> set docs" by (simp add: stage_group_def)
    with assms show ?thesis by blast
  qed
  have names: "\<forall>(k, g)\<in>set ?G. \<forall>d\<in>set g. map_of d ''filename'' \<noteq> None"
    using named by blast
  have keys: "\<forall>(k, g)\<in>set ?G. \<forall>d\<in>set (?H g). key_of rp ty d = k"
  proof (clarify)
    fix k g d assume kg: "(k, g) \<in> set ?G" and d: "d \<in> set (?H g)"
    from d obtain st d0 where d0: "d0 \<in> set g" "d = set_status st d0"
      using mark_statuses_elem [of d "sort_key doc_filename g"] by auto
    from d0(1) grp [OF kg] have "key_of rp ty d0 = k" by (simp add: stage_group_def)
    then show "key_of rp ty d = k" by (simp add: d0(2) key_of_set_status)
  qed
  let ?out = "concat (map (\<lambda>kg. ?H (snd kg)) ?G)"
  have run: "dedup_docs rp ty docs = Inr ?out"
    using process_groups_ok [OF names, of "[]"] by (simp add: dedup_docs_def)
  have "stage_group rp ty k ?out = ?H (stage_group rp ty k docs)" for k
  proof -
    have "stage_group rp ty k ?out = (case map_of ?G k of None \<Rightarrow> [] | Some g \<Rightarrow> ?H g)"
      unfolding stage_group_def using dist keys by (rule filter_concat_groups)
    then show ?thesis by (simp add: look mark_statuses_Nil)
  qed
  with run show ?thesis by blast
qed

lemma marked_group:
  assumes "c \<noteq> []"
  shows "mset (map without_status (mark_statuses (sort_key doc_filename c))) = mset (map without_status c) \<and>
     length (filter (\<lambda>d. doc_status d = Some ''original'') (mark_statuses (sort_key doc_filename c))) = 1 \<and>
     (\<forall>d\<in>set (mark_statuses (sort_key doc_filename c)).
        doc_status d = Some ''original'' \<or> doc_status d = Some ''duplicate'') \<and>
     (\<forall>orig\<in>set (mark_statuses (sort_key doc_filename c)). doc_status orig = Some ''original'' \<longrightarrow>
        (\<forall>d\<in>set (mark_statuses (sort_key doc_filename c)). doc_filename orig \<le> doc_filename d))"
proof -
  obtain x xs where srt: "sort_key doc_filename c = x # xs"
    using assms by (cases "sort_key doc_filename c") (auto dest: arg_cong [where f = length])
  have sorted: "sorted (map doc_filename (x # xs))"
    using sorted_sort_key [of doc_filename c] by (simp add: srt)
  have m: "mark_statuses (sort_key doc_filename c) =
      set_status ''original'' x # map (set_status ''duplicate'') xs"
    by (simp add: srt mark_statuses_Cons)
  have dup: "filter (\<lambda>d. doc_status d = Some ''original'') (map (set_status ''duplicate'') xs) = []"
    by (auto simp: filter_empty_conv doc_status_set_status)
  have "mset (map without_status (x # xs)) = mset (map without_status c)"
    using mset_sort [of doc_filename c] by (metis mset_map srt)
  then have 1: "mset (map without_status (mark_statuses (sort_key doc_filename c))) =
      mset (map without_status c)"
    by (simp add: m without_status_set_status comp_def)
  have 2: "length (filter (\<lambda>d. doc_status d = Some ''original'') (mark_statuses (sort_key doc_filename c))) = 1"
    by (simp add: m dup doc_status_set_status)
  have 3: "\<forall>d\<in>set (mark_statuses (sort_key doc_filename c)).
        doc_status d = Some ''original'' \<or> doc_status d = Some ''duplicate''"
    by (auto simp: m doc_status_set_status)
  have 4: "\<forall>orig\<in>set (mark_statuses (sort_key doc_filename c)). doc_status orig = Some ''original'' \<longrightarrow>
        (\<forall>d\<in>set (mark_statuses (sort_key doc_filename c)). doc_filename orig \<le> doc_filename d)"
    using sorted by (auto simp: m doc_status_set_status doc_filename_set_status)
  from 1 2 3 4 show ?thesis by blast
qed

lemma mset_by_groups:
  assumes "\<And>k. filter (\<lambda>d. key d = k) xs = filter (\<lambda>d. key d = k) ys"
  shows "mset xs = mset ys"
proof (rule multiset_eqI)
  fix x
  have "count (mset xs) x = count (mset (filter (\<lambda>d. key d = key x) xs)) x" by simp
  also have "\<dots> = count (mset (filter (\<lambda>d. key d = key x) ys)) x" by (simp only: assms)
  also have "\<dots> = count (mset ys) x" by simp
  finally show "count (mset xs) x = count (mset ys) x" .
qed

lemma sorted_group_permuted:
  assumes "mset docs' = mset docs" and "identified_by_name rp ty docs"
  shows "sort_key doc_filename (stage_group rp ty k docs') = sort_key doc_filename (stage_group rp ty k docs)"
proof (rule sort_key_inj_key_eq)
  show "mset (stage_group rp ty k docs') = mset (sort_key doc_filename (stage_group rp ty k docs))"
    using assms(1) by (simp add: stage_group_def)
  have "set docs' = set docs" using assms(1) by (rule mset_eq_setD)
  then show "inj_on doc_filename (set (stage_group rp ty k docs'))"
    using assms(2) by (auto simp: inj_on_def stage_group_def identified_by_name_def list_all_iff)
  show "sorted (map doc_filename (sort_key doc_filename (stage_group rp ty k docs)))" by simp
qed

section \<open>Facts about canonical records\<close>

text \<open>Cleaned strings: the results of \<^verbatim>\<open>get_field_value\<close> and the dates that the patterns build.\<close>

lemma get_field_value_str: "get_field_value rp (PStr s) = cleaned s"
  by (auto simp: get_field_value_def cleaned_def strip_def)

lemma cleaned_idem: "cleaned (cleaned s) = cleaned s"
proof (cases "strip s \<in> set ['''', '' '', ''N/A'', ''null'', ''None'']")
  case True
  then show ?thesis by (simp add: cleaned_def strip_sentinel)
next
  case False
  then show ?thesis by (simp add: cleaned_def strip_idem)
qed

lemma get_field_value_clean: "cleaned (get_field_value rp x) = get_field_value rp x"
proof (cases "\<not> py_truthy x \<or> strip (py_str rp x) \<in> set ['''', '' '', ''N/A'', ''null'', ''None'']")
  case True
  then have "get_field_value rp x = ''N/A''" by (simp add: get_field_value_def)
  then show ?thesis by (simp add: cleaned_def strip_sentinel)
next
  case False
  then have r: "get_field_value rp x = strip (py_str rp x)" by (simp add: get_field_value_def)
  from False show ?thesis unfolding r by (simp add: cleaned_def strip_idem)
qed

lemma strip_unchanged:
  "s \<noteq> [] \<Longrightarrow> \<not> is_space (hd s) \<Longrightarrow> \<not> is_space (last s) \<Longrightarrow> strip s = s"
proof -
  assume a: "s \<noteq> []" "\<not> is_space (hd s)" "\<not> is_space (last s)"
  then have 1: "dropWhile is_space s = s" by (cases s) simp_all
  from a have "rev s \<noteq> []" "\<not> is_space (hd (rev s))" by (simp_all add: hd_rev)
  then have 2: "dropWhile is_space (rev s) = rev s" by (cases "rev s") simp_all
  show ?thesis by (simp add: strip_def 1 2)
qed

lemma cleaned_digits_ends:
  assumes "s \<noteq> []" "is_digit (hd s)" "is_digit (last s)"
  shows "cleaned s = s"
proof -
  have st: "strip s = s" using assms by (intro strip_unchanged) (simp_all add: digit_not_space)
  have "\<not> is_digit CHR '' ''" "\<not> is_digit CHR ''N''" "\<not> is_digit CHR ''n''"
    by (simp_all add: is_digit_def)
  then have "s \<notin> set ['''', '' '', ''N/A'', ''null'', ''None'']" using assms(1,2) by auto
  then show ?thesis by (simp add: cleaned_def st)
qed

lemma py_str_int_digits: "0 \<le> y \<Longrightarrow> py_str_int y \<noteq> [] \<and> list_all is_digit (py_str_int y)"
proof -
  assume "0 \<le> y"
  moreover have "digits_of n \<noteq> []" for n by (subst digits_of.simps) simp
  ultimately show ?thesis by (simp add: py_str_int_def digits_of_all_digits)
qed

lemma fmt_02d_digits_any: "0 \<le> m \<Longrightarrow> fmt_02d m \<noteq> [] \<and> list_all is_digit (fmt_02d m)"
proof -
  assume "0 \<le> m"
  then have "py_str_int m \<noteq> [] \<and> list_all is_digit (py_str_int m)" by (rule py_str_int_digits)
  moreover have "is_digit CHR ''0''" by (simp add: is_digit_def)
  ultimately show ?thesis by (auto simp: fmt_02d_def Let_def list_all_iff)
qed

lemma cleaned_fmt_date:
  assumes "0 \<le> m" "0 \<le> d" "0 \<le> y"
  shows "cleaned (fmt_date m d y) = fmt_date m d y"
proof -
  obtain a as where a: "fmt_02d m = a # as" "is_digit a"
    using fmt_02d_digits_any [OF assms(1)] by (cases "fmt_02d m") auto
  have y: "py_str_int y \<noteq> []" "list_all is_digit (py_str_int y)"
    using py_str_int_digits [OF assms(3)] by simp_all
  then have "is_digit (last (py_str_int y))" by (simp add: list_all_iff)
  then show ?thesis using a y(1)
    by (intro cleaned_digits_ends) (simp_all add: fmt_date_def)
qed

lemma pattern_clean:
  "pattern1 t = Inr (Some out) \<or> pattern2 t = Inr (Some out) \<or> pattern3 t = Inr (Some out) \<or>
   pattern4 t = Inr (Some out) \<or> pattern5 t = Inr (Some out) \<Longrightarrow> cleaned out = out"
  by (auto simp: pattern1_eq pattern2_eq pattern3_eq pattern4_eq pattern5_eq
      split: option.splits if_splits dest!: month_names_range intro!: cleaned_fmt_date)

lemma parse_date_clean:
  assumes fb: "\<forall>t out. fb t = Some out \<longrightarrow> cleaned out = out"
    and v: "cleaned v = v"
    and run: "parse_date fb v = Inr out"
  shows "cleaned out = out"
proof (cases "v = [] \<or> v = ''N/A''")
  case True
  with run have "out = ''N/A''" by (auto simp: parse_date_def)
  then show ?thesis by (simp add: cleaned_def strip_sentinel)
next
  case False
  have sv: "strip v = v" using v False by (auto simp: cleaned_def split: if_splits)
  obtain r where r: "parse_date_try fb v = Inr r"
     "pattern1 v = Inr (Some r) \<or> pattern2 v = Inr (Some r) \<or> pattern3 v = Inr (Some r) \<or>
      pattern4 v = Inr (Some r) \<or> pattern5 v = Inr (Some r) \<or> fb v = Some r \<or> r = v"
    using parse_date_try_cases [of fb v] by blast
  have "out = r" using run False r(1) by (simp add: parse_date_def sv)
  moreover have "cleaned r = r" using r(2) fb v pattern_clean [of v r] by blast
  ultimately show ?thesis by simp
qed

text \<open>
  The extraction writes cleaned values only, under fields of the label map, so it
  keeps a record under construction well formed.
\<close>

lemma collect_valid_clean:
  "collect_valid rp items = Inr vs \<Longrightarrow> \<forall>v\<in>set vs. cleaned v = v"
proof (induction items arbitrary: vs)
  case Nil
  then show ?case by simp
next
  case (Cons a items)
  then show ?case
    by (auto simp: bind_err_def Let_def get_field_value_clean split: sum.splits if_splits)
qed

lemma label_step_cases:
  assumes "label_step rp label lm bd = Inr bd1"
  shows "bd1 = bd \<or> (\<exists>f v. f \<in> snd ` set lm \<and> cleaned v = v \<and> bd1 = AList.update f v bd)"
proof -
  have "bd1 = bd \<or>
    (\<exists>s f items v vs. map_of lm s = Some f \<and> collect_valid rp items = Inr (v # vs) \<and>
       bd1 = AList.update f v bd)"
    using assms
    by (auto simp: label_step_def bind_err_def py_lookup_def
        split: sum.splits option.splits list.splits if_splits pyval.splits) blast
  then show ?thesis
  proof
    assume "bd1 = bd"
    then show ?thesis by simp
  next
    assume "\<exists>s f items v vs. map_of lm s = Some f \<and> collect_valid rp items = Inr (v # vs) \<and>
       bd1 = AList.update f v bd"
    then obtain s f items v vs where
      m: "map_of lm s = Some f" and c: "collect_valid rp items = Inr (v # vs)" and
      b: "bd1 = AList.update f v bd"
      by blast
    have "f \<in> snd ` set lm" using map_of_SomeD [OF m] by force
    moreover have "cleaned v = v" using collect_valid_clean [OF c] by simp
    ultimately show ?thesis using b by blast
  qed
qed

lemma extract_preserves:
  "extract_from_labels rp labels lm bd = Inr bd' \<Longrightarrow>
     (\<forall>bd f v. P bd \<longrightarrow> f \<in> snd ` set lm \<longrightarrow> cleaned v = v \<longrightarrow> P (AList.update f v bd)) \<Longrightarrow>
     P bd \<Longrightarrow> P bd'"
  "extract_loop rp items lm bd = Inr bd' \<Longrightarrow>
     (\<forall>bd f v. P bd \<longrightarrow> f \<in> snd ` set lm \<longrightarrow> cleaned v = v \<longrightarrow> P (AList.update f v bd)) \<Longrightarrow>
     P bd \<Longrightarrow> P bd'"
proof (induction rp labels lm bd and rp items lm bd arbitrary: bd' and bd'
    rule: extract_from_labels_extract_loop.induct)
  case (1 rp labels label_map base_data)
  then show ?case
    by (auto simp: extract_from_labels.simps split: sum.splits)
next
  case (2 rp label_map base_data)
  then show ?case by (simp add: extract_loop.simps)
next
  case (3 rp label rest label_map base_data)
  from "3.prems"(1) obtain bd1 children where
    s: "label_step rp label label_map base_data = Inr bd1" and
    c: "py_get label ''ChildLabels'' PNone = Inr children"
    by (auto simp: extract_loop.simps split: sum.splits)
  have p1: "P bd1" using label_step_cases [OF s] "3.prems"(2,3) by auto
  show ?case
  proof (cases "py_truthy children")
    case True
    with "3.prems"(1) s c obtain bd2 where
      e: "extract_from_labels rp children label_map bd1 = Inr bd2" and
      r: "extract_loop rp rest label_map bd2 = Inr bd'"
      by (auto simp: extract_loop.simps split: sum.splits)
    have "P bd2" using "3.IH"(1) [OF s c True e "3.prems"(2) p1] .
    then show ?thesis using "3.IH"(2) [OF s c True e r "3.prems"(2)] by simp
  next
    case False
    with "3.prems"(1) s c have r: "extract_loop rp rest label_map bd1 = Inr bd'"
      by (auto simp: extract_loop.simps split: sum.splits)
    show ?thesis using "3.IH"(3) [OF s c False r "3.prems"(2) p1] .
  qed
qed

lemma find_skill_preserves:
  "find_skill rp skills name lm bd = Inr (found, bd') \<Longrightarrow>
     (\<forall>bd f v. P bd \<longrightarrow> f \<in> snd ` set lm \<longrightarrow> cleaned v = v \<longrightarrow> P (AList.update f v bd)) \<Longrightarrow>
     P bd \<Longrightarrow> P bd'"
proof (induction skills)
  case Nil
  then show ?case by simp
next
  case (Cons skill rest)
  from Cons.prems(1) obtain n where n: "py_get skill ''SkillName'' PNone = Inr n"
    by (auto simp: bind_err_def split: sum.splits)
  show ?case
  proof (cases "n = PStr name")
    case True
    with Cons.prems(1) n obtain labels where
      e: "extract_from_labels rp labels lm bd = Inr bd'"
      by (auto simp: bind_err_def split: sum.splits)
    show ?thesis using e Cons.prems(2,3) by (rule extract_preserves(1))
  next
    case False
    with Cons.prems(1) n have "find_skill rp rest name lm bd = Inr (found, bd')"
      by (simp add: bind_err_def)
    then show ?thesis using Cons.prems(2,3) by (rule Cons.IH)
  qed
qed

lemma map_fst_update: "map_of bd f \<noteq> None \<Longrightarrow> map fst (AList.update f v bd) = map fst bd"
  by (induction bd) auto

lemma partial_record_update:
  assumes "partial_record ty bd" "map_of bd f \<noteq> None" "f \<noteq> ''document_type''" "f \<noteq> ''docId''"
    "cleaned v = v"
  shows "partial_record ty (AList.update f v bd)"
  using assms
  by (auto simp: partial_record_def map_fst_update update_conv' list_all_iff split: option.splits)

lemma clean_sentinel: "cleaned ''N/A'' = ''N/A''"
  by (simp add: cleaned_def strip_sentinel)

lemma partial_record_keys:
  assumes "partial_record ty bd" "f \<in> snd ` set (snd (snd (snd (type_schema ty))))"
  shows "map_of bd f \<noteq> None \<and> f \<noteq> ''document_type'' \<and> f \<noteq> ''docId''"
proof -
  have "f \<in> set (map fst (fst (snd (type_schema ty))))"
    using assms(2) by (auto simp: type_schema_def split: if_splits)
  moreover have "''document_type'' \<notin> set (map fst (fst (snd (type_schema ty))))"
    "''docId'' \<notin> set (map fst (fst (snd (type_schema ty))))"
    by (simp_all add: type_schema_def)
  moreover have "set (map fst (fst (snd (type_schema ty)))) \<subseteq> set (map fst bd)"
    using assms(1) by (auto simp: partial_record_def)
  ultimately show ?thesis unfolding map_of_eq_None_iff set_map by blast
qed

lemma partial_record_start:
  "partial_record ty
     (dict_update [(''document_type'', ty), (''filename'', name), (''docId'', [])]
        (fst (snd (type_schema ty))))"
  by (cases "ty = ''paystub''"; cases "ty = ''w2''")
     (simp_all add: partial_record_def dict_update_def type_schema_def identity_fields_def clean_sentinel)

lemma identity_not_reserved:
  "''document_type'' \<notin> set (identity_fields ty)" "''docId'' \<notin> set (identity_fields ty)"
  by (simp_all add: identity_fields_def)

lemma partial_record_field:
  "partial_record ty bd \<Longrightarrow> f \<in> set (identity_fields ty) \<Longrightarrow> \<exists>v. map_of bd f = Some v \<and> cleaned v = v"
  by (auto simp: partial_record_def list_all_iff split: option.splits)

lemma parse_date_loop_preserves:
  assumes fb: "\<forall>t out. fb t = Some out \<longrightarrow> cleaned out = out"
  shows "partial_record ty bd \<Longrightarrow> set fields \<subseteq> set (identity_fields ty) \<Longrightarrow>
     partial_record ty (parse_date_loop fb fields bd)"
proof (induction fields arbitrary: bd)
  case Nil
  then show ?case by simp
next
  case (Cons field rest)
  have f: "field \<in> set (identity_fields ty)" and r: "set rest \<subseteq> set (identity_fields ty)"
    using Cons.prems(2) by simp_all
  obtain v where v: "map_of bd field = Some v" "cleaned v = v"
    using partial_record_field [OF Cons.prems(1) f] by blast
  show ?case
  proof (cases "v \<noteq> ''N/A''")
    case False
    then show ?thesis using v Cons.IH [OF Cons.prems(1) r] by simp
  next
    case True
    show ?thesis
    proof (cases "parse_date fb v")
      case (Inl e)
      then show ?thesis using v True Cons.prems(1) by simp
    next
      case (Inr out)
      have "cleaned out = out" using fb v(2) Inr by (rule parse_date_clean)
      then have "partial_record ty (AList.update field out bd)"
        using Cons.prems(1) v(1) f identity_not_reserved [of ty]
        by (intro partial_record_update) auto
      then have "partial_record ty (parse_date_loop fb rest (AList.update field out bd))"
        using r by (rule Cons.IH)
      then show ?thesis using v True Inr by simp
    qed
  qed
qed

lemma parse_date_fields_preserves:
  assumes "\<forall>t out. fb t = Some out \<longrightarrow> cleaned out = out" "partial_record ty bd"
  shows "partial_record ty (parse_date_fields fb bd ty)"
  unfolding parse_date_fields_def Let_def
  using assms by (intro parse_date_loop_preserves) (auto simp: identity_fields_def)

lemma required_identity: "set (fst (type_schema ty)) = set (identity_fields ty)"
  by (auto simp: type_schema_def identity_fields_def)

lemma canonical_of_partial:
  assumes p: "partial_record ty bd"
    and m: "filter (\<lambda>f. map_of bd f = Some ''N/A'' \<or> map_of bd f = Some []) (fst (type_schema ty)) = []"
  shows "canonical_record ty (AList.update ''status'' ''original'' bd)"
proof -
  have k: "map fst bd = [''document_type'', ''filename'', ''docId''] @ map fst (fst (snd (type_schema ty)))"
    using p by (simp add: partial_record_def)
  have "''status'' \<notin> set (map fst bd)" unfolding k by (simp add: type_schema_def)
  then have keys: "map fst (AList.update ''status'' ''original'' bd) = record_keys ty"
    by (simp add: update_keys k record_keys_def)
  have ident: "case map_of (AList.update ''status'' ''original'' bd) f of None \<Rightarrow> False
      | Some v \<Rightarrow> cleaned v = v \<and> v \<noteq> ''N/A''"
    if f: "f \<in> set (identity_fields ty)" for f
  proof -
    obtain v where v: "map_of bd f = Some v" "cleaned v = v"
      using partial_record_field [OF p f] by blast
    have "f \<in> set (fst (type_schema ty))" using f by (simp add: required_identity)
    with m have "v \<noteq> ''N/A''" using v(1) by (auto simp: filter_empty_conv)
    moreover have "f \<noteq> ''status''" using f status_not_identity [of ty] by auto
    ultimately show ?thesis using v by (simp add: update_conv')
  qed
  show ?thesis
    using p keys ident
    by (simp add: canonical_record_def partial_record_def update_conv' list_all_iff)
qed

text \<open>
  A record that \<^verbatim>\<open>extract_document_data\<close> returns is a valid canonical record of the
  type it returns, when the fall-back parser gives cleaned texts (\<^verbatim>\<open>strftime('%m/%d/%Y')\<close>
  gives digits and slashes).
\<close>

lemma extract_body_record:
  assumes "extract_body rp fb raw name = Inr (Some d, Some ty, None)"
  shows "\<exists>file_name skills bd2.
     find_skill rp skills (fst (snd (snd (type_schema ty)))) (snd (snd (snd (type_schema ty))))
       (dict_update [(''document_type'', ty), (''filename'', file_name), (''docId'', [])]
          (fst (snd (type_schema ty)))) = Inr (True, bd2) \<and>
     filter (\<lambda>f. map_of (parse_date_fields fb bd2 ty) f = Some ''N/A'' \<or>
                 map_of (parse_date_fields fb bd2 ty) f = Some []) (fst (type_schema ty)) = [] \<and>
     d = AList.update ''status'' ''original'' (parse_date_fields fb bd2 ty)"
  using assms
  by (auto simp: extract_body_def Let_def bind_err_def case_prod_beta split: sum.splits if_splits) blast

lemma extract_document_data_canonical:
  assumes fb: "\<forall>t out. fb t = Some out \<longrightarrow> cleaned out = out"
    and run: "extract_document_data rp fb raw name = (Some d, Some ty, None)"
  shows "canonical_record ty d"
proof -
  have "extract_body rp fb raw name = Inr (Some d, Some ty, None)"
    using run by (simp add: extract_document_data_def split: sum.splits)
  then obtain file_name skills bd2 where
    s: "find_skill rp skills (fst (snd (snd (type_schema ty)))) (snd (snd (snd (type_schema ty))))
       (dict_update [(''document_type'', ty), (''filename'', file_name), (''docId'', [])]
          (fst (snd (type_schema ty)))) = Inr (True, bd2)" and
    m: "filter (\<lambda>f. map_of (parse_date_fields fb bd2 ty) f = Some ''N/A'' \<or>
                 map_of (parse_date_fields fb bd2 ty) f = Some []) (fst (type_schema ty)) = []" and
    d: "d = AList.update ''status'' ''original'' (parse_date_fields fb bd2 ty)"
    using extract_body_record by blast
  have step: "\<forall>bd f v. partial_record ty bd \<longrightarrow> f \<in> snd ` set (snd (snd (snd (type_schema ty)))) \<longrightarrow>
      cleaned v = v \<longrightarrow> partial_record ty (AList.update f v bd)"
    using partial_record_keys partial_record_update by blast
  have "partial_record ty bd2"
    using s step partial_record_start by (rule find_skill_preserves)
  then have "partial_record ty (parse_date_fields fb bd2 ty)"
    using fb by (intro parse_date_fields_preserves)
  then show ?thesis unfolding d using m by (rule canonical_of_partial)
qed

section \<open>Facts about clusters\<close>

text \<open>
  On valid canonical records the key that the stage computes is the grouping key, and
  two records with the same grouping key and the same file name are the same record.
\<close>

lemma field_values_present:
  "\<forall>f\<in>set fields. map_of d f \<noteq> None \<Longrightarrow>
   field_values rp (doc_value d) fields = Inr (map (\<lambda>f. cleaned (record_field d f)) fields)"
  by (induction fields)
     (auto simp: py_getitem_doc_value bind_err_def record_field_def get_field_value_str)

lemma key_of_grouping_key:
  "\<forall>f\<in>set (identity_fields ty). map_of d f \<noteq> None \<Longrightarrow> key_of rp ty d = grouping_key ty d"
  by (simp add: key_of_def get_grouping_key_fields field_values_present grouping_key_def)

lemma canonical_field:
  "canonical_record ty d \<Longrightarrow> f \<in> set (identity_fields ty) \<Longrightarrow>
     \<exists>v. map_of d f = Some v \<and> cleaned v = v"
  by (auto simp: canonical_record_def list_all_iff split: option.splits)

lemma canonical_key: "canonical_record ty d \<Longrightarrow> key_of rp ty d = grouping_key ty d"
  using canonical_field [of ty d] by (intro key_of_grouping_key) auto

lemma grouping_key_set_status: "grouping_key ty (set_status st d) = grouping_key ty d"
  using status_not_identity [of ty]
  by (auto simp: grouping_key_def record_field_def map_of_set_status)

lemma canonical_filename: "canonical_record ty d \<Longrightarrow> map_of d ''filename'' \<noteq> None"
proof -
  assume "canonical_record ty d"
  then have "''filename'' \<in> set (map fst d)" by (simp add: canonical_record_def record_keys_def)
  then show ?thesis unfolding map_of_eq_None_iff set_map by simp
qed

lemma alist_eqI:
  "map fst xs = map fst ys \<Longrightarrow> distinct (map fst xs) \<Longrightarrow>
   \<forall>k\<in>set (map fst xs). map_of xs k = map_of ys k \<Longrightarrow> xs = ys"
proof (induction xs arbitrary: ys)
  case Nil
  then show ?case by simp
next
  case (Cons x xs)
  from Cons.prems(1) obtain y ys' where ys: "ys = y # ys'" "fst x = fst y" "map fst xs = map fst ys'"
    by (cases ys) auto
  have "map_of (x # xs) (fst x) = map_of ys (fst x)" using Cons.prems(3) by simp
  then have xy: "x = y" using ys(1,2) by (cases x; cases y) simp
  have "map_of xs k = map_of ys' k" if "k \<in> set (map fst xs)" for k
  proof -
    have "fst x \<notin> set (map fst xs)" using Cons.prems(2) by simp
    with that have "k \<noteq> fst x" by blast
    moreover have "k \<in> set (map fst (x # xs))" using that by simp
    then have "map_of (x # xs) k = map_of ys k" using Cons.prems(3) by blast
    ultimately show ?thesis using ys(1) xy by (cases y) (simp split: if_splits)
  qed
  then have "xs = ys'" using ys(3) Cons.prems(2) by (intro Cons.IH) simp_all
  then show ?case using ys(1) xy by simp
qed

lemma record_keys_set:
  "set (record_keys ty) = {''document_type'', ''filename'', ''docId'', ''status''} \<union> set (identity_fields ty)"
  by (auto simp: record_keys_def type_schema_def identity_fields_def)

lemma record_keys_distinct: "distinct (record_keys ty)"
  by (simp add: record_keys_def type_schema_def)

lemma canonical_eq:
  assumes c1: "canonical_record ty d1" and c2: "canonical_record ty d2"
    and k: "grouping_key ty d1 = grouping_key ty d2"
    and n: "doc_filename d1 = doc_filename d2"
  shows "d1 = d2"
proof (rule alist_eqI)
  show "map fst d1 = map fst d2" using c1 c2 by (simp add: canonical_record_def)
  show "distinct (map fst d1)" using c1 record_keys_distinct [of ty] by (simp add: canonical_record_def)
  have name: "map_of d1 ''filename'' = map_of d2 ''filename''"
    using canonical_filename [OF c1] canonical_filename [OF c2] n
    by (auto simp: doc_filename_def)
  have ident: "map_of d1 f = map_of d2 f" if f: "f \<in> set (identity_fields ty)" for f
  proof -
    obtain v1 v2 where v: "map_of d1 f = Some v1" "cleaned v1 = v1" "map_of d2 f = Some v2" "cleaned v2 = v2"
      using canonical_field [OF c1 f] canonical_field [OF c2 f] by blast
    have "cleaned (record_field d1 f) = cleaned (record_field d2 f)"
      using k f by (simp add: grouping_key_def)
    then show ?thesis using v by (simp add: record_field_def)
  qed
  have fixed: "map_of d1 ''document_type'' = map_of d2 ''document_type''"
    "map_of d1 ''docId'' = map_of d2 ''docId''" "map_of d1 ''status'' = map_of d2 ''status''"
    using c1 c2 by (simp_all add: canonical_record_def)
  have "set (map fst d1) = {''document_type'', ''filename'', ''docId'', ''status''} \<union> set (identity_fields ty)"
    using c1 record_keys_set [of ty] by (simp add: canonical_record_def)
  then show "\<forall>k\<in>set (map fst d1). map_of d1 k = map_of d2 k"
    using name ident fixed by auto
qed

lemma canonical_identified:
  assumes "\<forall>d\<in>set docs. canonical_record ty d"
  shows "identified_by_name rp ty docs"
  unfolding identified_by_name_def list_all_iff
  using assms by (auto simp: canonical_key intro: canonical_eq)

lemma canonical_groups:
  assumes "\<forall>d\<in>set docs. canonical_record ty d"
  shows "stage_group rp ty k docs = cluster ty k docs"
  unfolding stage_group_def cluster_def
  using assms by (intro filter_cong) (simp_all add: canonical_key)

lemma marked_groups:
  assumes docs: "\<forall>d\<in>set docs. canonical_record ty d"
    and out: "\<And>k. stage_group rp ty k out = mark_statuses (sort_key doc_filename (stage_group rp ty k docs))"
  shows "stage_group rp ty k out = cluster ty k out"
  unfolding stage_group_def cluster_def
proof (rule filter_cong)
  fix d' assume "d' \<in> set out"
  then have "d' \<in> set (stage_group rp ty (key_of rp ty d') out)" by (simp add: stage_group_def)
  then obtain st d where d: "d \<in> set (sort_key doc_filename (stage_group rp ty (key_of rp ty d') docs))"
    "d' = set_status st d"
    unfolding out using mark_statuses_elem by blast
  from d(1) have "d \<in> set docs" by (simp add: stage_group_def)
  with docs have "key_of rp ty d = grouping_key ty d" by (simp add: canonical_key)
  then show "(key_of rp ty d' = k) = (grouping_key ty d' = k)"
    by (simp add: d(2) key_of_set_status grouping_key_set_status)
qed simp

text \<open>
  An instance: the record that \<^verbatim>\<open>extract_document_data\<close> returns for a W-2 with three
  labels, the name of the employee given with spaces around it.
\<close>

lemma extract_document_data_example:
  "extract_document_data (\<lambda>v. []) fallback_raises
     (PDict [(''Meta'', PDict [(''Type'', PStr ''w2''), (''FileName'', PStr ''b'')]),
             (''Summary'', PList [PDict [(''SkillName'', PStr ''IC - W2''),
                (''Labels'', PList [
                   PDict [(''LabelName'', PStr ''Employee Name''),
                          (''Values'', PList [PDict [(''Value'', PStr '' Bob '')]])],
                   PDict [(''LabelName'', PStr ''Employer Name''),
                          (''Values'', PList [PDict [(''Value'', PStr ''ACME'')]])],
                   PDict [(''LabelName'', PStr ''Year''),
                          (''Values'', PList [PDict [(''Value'', PStr ''2023'')]])]])]])])
     ''x.json'' =
   (Some [(''document_type'', ''w2''), (''filename'', ''b.json''), (''docId'', ''''),
          (''employee_name'', ''Bob''), (''employer_name'', ''ACME''), (''year'', ''2023''),
          (''status'', ''original'')],
    Some ''w2'', None)"
  by code_simp

section \<open>Results\<close>

text \<open>
  C9. The cleaning function is idempotent: cleaning the string that cleaning returned
  gives that string again, for every value and whatever text \<^verbatim>\<open>str()\<close> prints for
  lists and dictionaries.
\<close>

theorem get_field_value_idempotent:
  "get_field_value rp (PStr (get_field_value rp x)) = get_field_value rp x"
proof (cases "\<not> py_truthy x \<or> strip (py_str rp x) \<in> set ['''', '' '', ''N/A'', ''null'', ''None'']")
  case True
  then have r: "get_field_value rp x = ''N/A''" by (simp add: get_field_value_def)
  have "strip ''N/A'' = ''N/A''" by (simp add: strip_def is_space_def)
  then show ?thesis unfolding r by (simp add: get_field_value_def)
next
  case False
  then have r: "get_field_value rp x = strip (py_str rp x)" by (simp add: get_field_value_def)
  from False have "strip (py_str rp x) \<noteq> []" by auto
  with False show ?thesis unfolding r by (simp add: get_field_value_def strip_idem)
qed

theorem get_field_value_idempotent_witness:
  "get_field_value (\<lambda>v. []) (PStr (get_field_value (\<lambda>v. []) (PStr '' 42 ''))) = ''42'' \<and>
   get_field_value (\<lambda>v. []) (PStr '' 42 '') = ''42''"
proof -
  have "get_field_value (\<lambda>v. []) (PStr '' 42 '') = ''42''"
    by (simp add: get_field_value_def strip_def is_space_def)
  then show ?thesis
    using get_field_value_idempotent [of "\<lambda>v. []" "PStr '' 42 ''"] by simp
qed




text \<open>
  C4. Patterns 1 and 2 check the year against 1000 to 9999; patterns 3, 4 and 5 do not.
  On \<^verbatim>\<open>"0999-01-01"\<close> pattern 5 matches and returns a date whose year is 999, printed
  with three digits, whatever the fall-back parser is.
\<close>

theorem parse_date_short_year:
  "parse_date fb ''0999-01-01'' = Inr ''01/01/999''"
  by code_simp

text \<open>
  C5 (as amended). Pattern 2 is reached: when the stripped input is a numeric triple
  with the first number from 13 to 31, the second from 1 to 12 and the year from 1000
  to 9999, pattern 1 matches the shape and fails its range check, and \<^verbatim>\<open>parse_date\<close>
  returns pattern 2's reading, second number, first number, year. On every other
  input \<^verbatim>\<open>parse_date\<close> returns what it returns with the branch of pattern 2 removed.
\<close>

theorem parse_date_rule2:
  "(day_first (strip s) \<longrightarrow> (\<exists>g1 g2 g3. match_numeric (strip s) = Some (g1, g2, g3) \<and>
      parse_date fb s = Inr (fmt_date (int (digits_value g2)) (int (digits_value g1)) (int (digits_value g3))))) \<and>
   (\<not> day_first (strip s) \<longrightarrow> parse_date fb s = parse_date_no2 fb s)"
proof (cases "s = [] \<or> s = ''N/A''")
  case True
  have "strip ''N/A'' = ''N/A''" by (simp add: strip_def is_space_def)
  moreover have "\<not> day_first ''N/A''" "\<not> day_first []" by code_simp+
  ultimately show ?thesis using True by (auto simp: parse_date_def parse_date_no2_def strip_def)
next
  case False
  show ?thesis
  proof (cases "day_first (strip s)")
    case True
    then obtain g1 g2 g3 where "match_numeric (strip s) = Some (g1, g2, g3)" "pattern1 (strip s) = Inr None"
     "pattern2 (strip s) = Inr (Some (fmt_date (int (digits_value g2)) (int (digits_value g1)) (int (digits_value g3))))"
      using pattern12_day_first by blast
    then show ?thesis using True False
      by (simp add: parse_date_def parse_date_try_def or_else_def)
  next
    case nd: False
    obtain r1 where r1: "pattern1 (strip s) = Inr r1" using pattern1_eq by blast
    have "parse_date_try fb (strip s) = parse_date_try_no2 fb (strip s)"
      using pattern2_not_day_first [OF nd] r1
      by (cases r1) (auto simp: parse_date_try_def parse_date_try_no2_def or_else_def)
    then show ?thesis using nd by (simp add: parse_date_def parse_date_no2_def)
  qed
qed

theorem parse_date_rule2_witness:
  "day_first (strip ''31/02/2023'') \<and> match_numeric (strip ''31/02/2023'') = Some (''31'', ''02'', ''2023'') \<and>
   parse_date fallback_raises ''31/02/2023'' = Inr ''02/31/2023'' \<and>
   \<not> day_first (strip ''02/03/2023'') \<and>
   parse_date fallback_raises ''02/03/2023'' = parse_date_no2 fallback_raises ''02/03/2023''"
proof -
  have a: "day_first (strip ''31/02/2023'')" by code_simp
  have b: "match_numeric (strip ''31/02/2023'') = Some (''31'', ''02'', ''2023'')" by code_simp
  have c: "parse_date fallback_raises ''31/02/2023'' = Inr ''02/31/2023''" by code_simp
  have d: "\<not> day_first (strip ''02/03/2023'')" by code_simp
  show ?thesis
    using parse_date_rule2 [of "''02/03/2023''" fallback_raises] a b c d by simp
qed

text \<open>
  The claim as it was stated fails on \<^verbatim>\<open>"31/02/2023"\<close>: with pattern 2 the result is
  \<^verbatim>\<open>"02/31/2023"\<close>; without it the fall-back parser is asked, which raises (no
  31 February exists), and the input comes back unchanged.
\<close>

theorem parse_date_rule2_counterexample:
  "parse_date fallback_raises ''31/02/2023'' = Inr ''02/31/2023'' \<and>
   parse_date_no2 fallback_raises ''31/02/2023'' = Inr ''31/02/2023''"
  by code_simp

text \<open>
  C8. A string in normalised form (\<^verbatim>\<open>MM/DD/YYYY\<close>, month 1 to 12, day 1 to 31, year 1000
  to 9999) is returned unchanged by \<^verbatim>\<open>parse_date\<close>; so normalising a result that is in
  normalised form gives that result again.
\<close>

theorem parse_date_idempotent_on_normalized:
  "(is_normalized s \<longrightarrow> parse_date fb s = Inr s) \<and>
   (parse_date fb s = Inr out \<and> is_normalized out \<longrightarrow> parse_date fb out = parse_date fb s)"
proof (intro conjI impI)
  assume "is_normalized s"
  then show "parse_date fb s = Inr s" by (rule parse_date_fixes_normalized)
next
  assume a: "parse_date fb s = Inr out \<and> is_normalized out"
  then have "parse_date fb out = Inr out" by (simp add: parse_date_fixes_normalized)
  with a show "parse_date fb out = parse_date fb s" by simp
qed

theorem parse_date_idempotent_on_normalized_witness:
  "is_normalized ''08/08/2025'' \<and> parse_date fallback_raises ''08/08/2025'' = Inr ''08/08/2025'' \<and>
   parse_date fallback_raises ''08-august-2025'' = Inr ''08/08/2025''"
proof -
  have a: "is_normalized ''08/08/2025''" by code_simp
  have b: "parse_date fallback_raises ''08-august-2025'' = Inr ''08/08/2025''" by code_simp
  show ?thesis
    using parse_date_idempotent_on_normalized [of "''08/08/2025''" fallback_raises] a b by simp
qed

text \<open>
  C6. On every value the classifier returns \<^verbatim>\<open>"paystub"\<close>, \<^verbatim>\<open>"w2"\<close> or \<^verbatim>\<open>"1120"\<close>: it
  never raises. When its body raises, the result is \<^verbatim>\<open>"paystub"\<close>. On a record whose
  \<^verbatim>\<open>Meta\<close> is absent or a dictionary, whose \<^verbatim>\<open>Type\<close> and \<^verbatim>\<open>Title\<close> are absent or strings and
  whose \<^verbatim>\<open>Summary\<close> is a list of skills with string names, the result follows the
  resolution order: metadata scan (the indicators of \<^verbatim>\<open>w2\<close>, then those of \<^verbatim>\<open>1120\<close>),
  then the substring scan of the skill names in sequence order, then the exact skill
  names, then \<^verbatim>\<open>"paystub"\<close>.
\<close>

theorem identify_document_type_total:
  "identify_document_type j \<in> {''paystub'', ''w2'', ''1120''} \<and>
   (identify_body j = Inl e \<longrightarrow> identify_document_type j = ''paystub'') \<and>
   (py_get j ''Meta'' (PDict []) = Inr m \<and>
    py_get m ''Type'' (PStr []) = Inr (PStr meta_type) \<and>
    py_get j ''Title'' (PStr []) = Inr (PStr title) \<and>
    py_get j ''Summary'' (PList []) = Inr (PList skills) \<and>
    map (\<lambda>s. py_get s ''SkillName'' (PStr [])) skills = map (\<lambda>n. Inr (PStr n)) names
    \<longrightarrow> identify_document_type j = classify meta_type title names)"
proof (intro conjI impI)
  show "identify_document_type j \<in> {''paystub'', ''w2'', ''1120''}"
  proof (cases "identify_body j")
    case (Inl e) then show ?thesis by (simp add: identify_document_type_def)
  next
    case (Inr t)
    then show ?thesis using identify_body_kinds [OF Inr] by (simp add: identify_document_type_def)
  qed
next
  assume "identify_body j = Inl e"
  then show "identify_document_type j = ''paystub''" by (simp add: identify_document_type_def)
next
  assume "py_get j ''Meta'' (PDict []) = Inr m \<and>
    py_get m ''Type'' (PStr []) = Inr (PStr meta_type) \<and>
    py_get j ''Title'' (PStr []) = Inr (PStr title) \<and>
    py_get j ''Summary'' (PList []) = Inr (PList skills) \<and>
    map (\<lambda>s. py_get s ''SkillName'' (PStr [])) skills = map (\<lambda>n. Inr (PStr n)) names"
  then have "identify_body j = Inr (classify meta_type title names)"
    by (elim conjE) (rule identify_body_classify)
  then show "identify_document_type j = classify meta_type title names"
    by (simp add: identify_document_type_def)
qed

theorem identify_document_type_total_witness:
  "identify_body (PDict [(''Title'', PNone)]) = Inl AttributeError \<and>
   identify_document_type (PDict [(''Title'', PNone)]) = ''paystub'' \<and>
   identify_document_type
     (PDict [(''Meta'', PDict [(''Type'', PStr ''Tax Form'')]), (''Title'', PStr ''Return''),
             (''Summary'', PList [PDict [(''SkillName'', PStr ''IC - Other'')],
                                  PDict [(''SkillName'', PStr ''US 1120 Corp'')]])]) = ''1120'' \<and>
   classify ''Tax Form'' ''Return'' [''IC - Other'', ''US 1120 Corp''] = ''1120''"
proof -
  let ?m = "PDict [(''Type'', PStr ''Tax Form'')]"
  let ?skills = "[PDict [(''SkillName'', PStr ''IC - Other'')], PDict [(''SkillName'', PStr ''US 1120 Corp'')]]"
  let ?j = "PDict [(''Meta'', ?m), (''Title'', PStr ''Return''), (''Summary'', PList ?skills)]"
  have f: "identify_body (PDict [(''Title'', PNone)]) = Inl AttributeError" by code_simp
  have h: "py_get ?j ''Meta'' (PDict []) = Inr ?m \<and>
    py_get ?m ''Type'' (PStr []) = Inr (PStr ''Tax Form'') \<and>
    py_get ?j ''Title'' (PStr []) = Inr (PStr ''Return'') \<and>
    py_get ?j ''Summary'' (PList []) = Inr (PList ?skills) \<and>
    map (\<lambda>s. py_get s ''SkillName'' (PStr [])) ?skills = map (\<lambda>n. Inr (PStr n)) [''IC - Other'', ''US 1120 Corp'']"
    by (simp add: py_get_def)
  have c: "classify ''Tax Form'' ''Return'' [''IC - Other'', ''US 1120 Corp''] = ''1120''" by code_simp
  have 1: "identify_document_type (PDict [(''Title'', PNone)]) = ''paystub''"
    using identify_document_type_total [of "PDict [(''Title'', PNone)]" AttributeError] f by blast
  have 2: "identify_document_type ?j = ''1120''"
    using identify_document_type_total [of ?j _ ?m "''Tax Form''" "''Return''" ?skills
        "[''IC - Other'', ''US 1120 Corp'']"] h c by metis
  show ?thesis using f 1 2 c by blast
qed

text \<open>
  C7. A raw record whose \<^verbatim>\<open>Meta.Type\<close> is \<^verbatim>\<open>"Income W-2"\<close>, whose \<^verbatim>\<open>Title\<close> is absent or
  a string, and whose \<^verbatim>\<open>Summary\<close> is absent or a list of skills none of which is named
  exactly \<^verbatim>\<open>"IC - W2"\<close>, is classified \<^verbatim>\<open>w2\<close> and rejected: the result is
  \<^verbatim>\<open>(None, "w2", "Required skill 'IC - W2' not found")\<close>.
\<close>

theorem missing_w2_skill_rejected:
  assumes "py_get j ''Meta'' (PDict []) = Inr m"
    and "py_get m ''Type'' (PStr []) = Inr (PStr ''Income W-2'')"
    and "py_get j ''Title'' (PStr []) = Inr (PStr title)"
    and "py_get j ''Summary'' (PList []) = Inr (PList skills)"
    and "\<forall>s\<in>set skills. \<exists>n. py_get s ''SkillName'' PNone = Inr n \<and> n \<noteq> PStr ''IC - W2''"
  shows "extract_document_data rp fb j filename =
           (None, Some ''w2'', Some (Text ''Required skill 'IC - W2' not found''))"
proof -
  have ty: "identify_document_type j = ''w2''"
    using assms(1-3) by (rule identify_income_w2)
  obtain fn where fn: "py_get m ''FileName'' (PStr filename) = Inr fn"
    using py_get_dict [OF assms(2)] by blast
  show ?thesis
    by (simp add: extract_document_data_def extract_body_def ty assms(1,4) fn bind_err_def
        type_schema_def py_iter_def find_skill_absent [OF assms(5)])
qed

theorem missing_w2_skill_rejected_witness:
  "extract_document_data (\<lambda>v. []) fallback_raises
     (PDict [(''Meta'', PDict [(''Type'', PStr ''Income W-2''), (''FileName'', PStr ''w2_0001'')]),
             (''Title'', PStr ''Wage and Tax Statement''),
             (''Summary'', PList [PDict [(''SkillName'', PStr ''IC - Paystubs''), (''Labels'', PList [])]])])
     ''w2_0001.json'' =
   (None, Some ''w2'', Some (Text ''Required skill 'IC - W2' not found''))"
proof -
  let ?m = "PDict [(''Type'', PStr ''Income W-2''), (''FileName'', PStr ''w2_0001'')]"
  let ?skills = "[PDict [(''SkillName'', PStr ''IC - Paystubs''), (''Labels'', PList [])]]"
  let ?j = "PDict [(''Meta'', ?m), (''Title'', PStr ''Wage and Tax Statement''), (''Summary'', PList ?skills)]"
  have 1: "py_get ?j ''Meta'' (PDict []) = Inr ?m" by (simp add: py_get_def)
  have 2: "py_get ?m ''Type'' (PStr []) = Inr (PStr ''Income W-2'')" by (simp add: py_get_def)
  have 3: "py_get ?j ''Title'' (PStr []) = Inr (PStr ''Wage and Tax Statement'')" by (simp add: py_get_def)
  have 4: "py_get ?j ''Summary'' (PList []) = Inr (PList ?skills)" by (simp add: py_get_def)
  have 5: "\<forall>s\<in>set ?skills. \<exists>n. py_get s ''SkillName'' PNone = Inr n \<and> n \<noteq> PStr ''IC - W2''"
    by (simp add: py_get_def)
  show ?thesis by (rule missing_w2_skill_rejected [OF 1 2 3 4 5])
qed

text \<open>
  C10. \<^verbatim>\<open>get_grouping_key\<close> never raises and returns a key of the arity of the type
  (5 for \<^verbatim>\<open>paystub\<close>, 3 for \<^verbatim>\<open>w2\<close>, 4 otherwise). When the lookup of an identity field
  fails, the key is all \<^verbatim>\<open>"N/A"\<close>; otherwise it is the cleaned values of the identity
  fields. So two documents of a type that both miss an identity field have the same
  key.
\<close>

theorem get_grouping_key_total:
  "length (get_grouping_key rp doc doc_type) = key_arity doc_type \<and>
   (lookup_fails doc doc_type \<longrightarrow>
      get_grouping_key rp doc doc_type = replicate (key_arity doc_type) ''N/A'') \<and>
   (\<not> lookup_fails doc doc_type \<longrightarrow>
      get_grouping_key rp doc doc_type =
        map (\<lambda>f. get_field_value rp (projr (py_getitem doc f))) (identity_fields doc_type)) \<and>
   (lookup_fails doc doc_type \<and> lookup_fails doc' doc_type \<longrightarrow>
      get_grouping_key rp doc doc_type = get_grouping_key rp doc' doc_type)"
proof -
  have fails: "get_grouping_key rp d doc_type = replicate (key_arity doc_type) ''N/A''"
    if "lookup_fails d doc_type" for d
  proof -
    from that have "isl (field_values rp d (identity_fields doc_type))"
      by (intro field_values_fails) (simp add: lookup_fails_def list_ex_iff)
    then show ?thesis by (auto simp: get_grouping_key_fields split: sum.splits)
  qed
  have ok: "get_grouping_key rp doc doc_type =
        map (\<lambda>f. get_field_value rp (projr (py_getitem doc f))) (identity_fields doc_type)"
    if "\<not> lookup_fails doc doc_type"
    using that by (simp add: get_grouping_key_fields lookup_fails_def list_ex_iff field_values_ok)
  have len: "length (identity_fields doc_type) = key_arity doc_type"
    by (simp add: identity_fields_def key_arity_def)
  have "length (get_grouping_key rp doc doc_type) = key_arity doc_type"
    using fails [of doc] ok len by (cases "lookup_fails doc doc_type") simp_all
  then show ?thesis using fails ok by simp
qed

theorem get_grouping_key_total_witness:
  "lookup_fails (PDict [(''employee_name'', PStr ''Bob'')]) ''w2'' \<and>
   lookup_fails (PDict []) ''w2'' \<and>
   get_grouping_key (\<lambda>v. []) (PDict [(''employee_name'', PStr ''Bob'')]) ''w2'' = [''N/A'', ''N/A'', ''N/A''] \<and>
   get_grouping_key (\<lambda>v. []) (PDict []) ''w2'' = [''N/A'', ''N/A'', ''N/A''] \<and>
   \<not> lookup_fails (PDict [(''employee_name'', PStr '' Bob ''), (''employer_name'', PStr ''ACME''), (''year'', PInt 2023)]) ''w2'' \<and>
   get_grouping_key (\<lambda>v. [])
     (PDict [(''employee_name'', PStr '' Bob ''), (''employer_name'', PStr ''ACME''), (''year'', PInt 2023)]) ''w2''
     = [''Bob'', ''ACME'', ''2023'']"
proof -
  let ?d1 = "PDict [(''employee_name'', PStr ''Bob'')]"
  let ?d2 = "PDict [(''employee_name'', PStr '' Bob ''), (''employer_name'', PStr ''ACME''), (''year'', PInt 2023)]"
  have a: "lookup_fails ?d1 ''w2''" by code_simp
  have b: "lookup_fails (PDict []) ''w2''" by code_simp
  have c: "\<not> lookup_fails ?d2 ''w2''" by code_simp
  have d: "replicate (key_arity ''w2'') ''N/A'' = [''N/A'', ''N/A'', ''N/A'']" by code_simp
  have e: "map (\<lambda>f. get_field_value (\<lambda>v. []) (projr (py_getitem ?d2 f))) (identity_fields ''w2'') = [''Bob'', ''ACME'', ''2023'']"
    by code_simp
  note t1 = get_grouping_key_total [of "\<lambda>v. []" ?d1 "''w2''" "PDict []"]
  note t2 = get_grouping_key_total [of "\<lambda>v. []" ?d2 "''w2''" "PDict []"]
  have k1: "get_grouping_key (\<lambda>v. []) ?d1 ''w2'' = [''N/A'', ''N/A'', ''N/A'']"
    using t1 a d by metis
  have k0: "get_grouping_key (\<lambda>v. []) (PDict []) ''w2'' = [''N/A'', ''N/A'', ''N/A'']"
    using t1 a b k1 by metis
  have k2: "get_grouping_key (\<lambda>v. []) ?d2 ''w2'' = [''Bob'', ''ACME'', ''2023'']"
    using t2 c e by metis
  show ?thesis using a b c k0 k1 k2 by blast
qed

text \<open>
  C2. Extraction is last-writer-wins over the depth-first traversal. On every forest
  of labels and every label map the extractor returns the record obtained by applying,
  in depth-first order, the write of each label whose name is in the map and which has
  a value whose cleaned form is not \<^verbatim>\<open>"N/A"\<close> (the first such value, to the mapped
  field). So the final value of a field is that of the last label, in depth-first
  order, that writes the field, at whatever depth; a field no label writes keeps its
  value.
\<close>

theorem extraction_last_writer_wins:
  "extract_from_labels rp (PList (map label_json forest)) label_map base_data =
     Inr (apply_writes base_data (forest_writes rp label_map forest)) \<and>
   map_of (apply_writes base_data (forest_writes rp label_map forest)) field =
     (case last_write field (forest_writes rp label_map forest) of
        None \<Rightarrow> map_of base_data field
      | Some v \<Rightarrow> Some v)"
proof
  have "extract_loop rp (map label_json forest @ []) label_map base_data =
        extract_loop rp [] label_map
          (apply_writes base_data
            (List.map_filter (label_write rp label_map) (concat (map dfs_order forest))))"
    by (rule extract_loop_labels) (rule extract_loop_label)
  then show "extract_from_labels rp (PList (map label_json forest)) label_map base_data =
     Inr (apply_writes base_data (forest_writes rp label_map forest))"
    by (simp add: extract_from_labels_list extract_loop.simps forest_writes_def)
next
  show "map_of (apply_writes base_data (forest_writes rp label_map forest)) field =
     (case last_write field (forest_writes rp label_map forest) of
        None \<Rightarrow> map_of base_data field
      | Some v \<Rightarrow> Some v)"
    by (rule map_of_apply_writes)
qed

theorem extraction_last_writer_wins_witness:
  "extract_from_labels (\<lambda>v. [])
     (PList (map label_json
       [Label ''Year'' (Some [[(''Value'', PStr ''null'')], [(''Value'', PInt 2023)]])
          (Some [Label ''Year'' (Some [[(''Value'', PStr ''2024'')]]) None []]) [],
        Label ''Employee Name'' None None []]))
     [(''Employee Name'', ''employee_name''), (''Year'', ''year'')]
     [(''employee_name'', ''N/A''), (''year'', ''N/A'')] =
   Inr [(''employee_name'', ''N/A''), (''year'', ''2024'')] \<and>
   forest_writes (\<lambda>v. []) [(''Employee Name'', ''employee_name''), (''Year'', ''year'')]
       [Label ''Year'' (Some [[(''Value'', PStr ''null'')], [(''Value'', PInt 2023)]])
          (Some [Label ''Year'' (Some [[(''Value'', PStr ''2024'')]]) None []]) [],
        Label ''Employee Name'' None None []] =
   [(''year'', ''2023''), (''year'', ''2024'')]"
proof -
  let ?forest = "[Label ''Year'' (Some [[(''Value'', PStr ''null'')], [(''Value'', PInt 2023)]])
          (Some [Label ''Year'' (Some [[(''Value'', PStr ''2024'')]]) None []]) [],
        Label ''Employee Name'' None None []]"
  let ?lm = "[(''Employee Name'', ''employee_name''), (''Year'', ''year'')]"
  let ?bd = "[(''employee_name'', ''N/A''), (''year'', ''N/A'')]"
  have w: "forest_writes (\<lambda>v. []) ?lm ?forest = [(''year'', ''2023''), (''year'', ''2024'')]"
    by code_simp
  have a: "apply_writes ?bd [(''year'', ''2023''), (''year'', ''2024'')] =
     [(''employee_name'', ''N/A''), (''year'', ''2024'')]"
    by code_simp
  show ?thesis
    using extraction_last_writer_wins [of "\<lambda>v. []" ?forest ?lm ?bd "''year''"] w a by simp
qed

text \<open>
  C1. For every collection of valid canonical records of one type, the grouping stage
  returns a list in which, for every grouping key that occurs, the records sharing
  that key are the input records sharing it, each given a status; exactly one of them
  is \<^verbatim>\<open>"original"\<close>, every other is \<^verbatim>\<open>"duplicate"\<close>, and the original has the smallest
  file name of them. The grouping key is the tuple of the cleaned identity fields of
  the record. The assignment does not depend on the order of the collection: any
  rearrangement of the input gives the same records with the same statuses.
\<close>

theorem dedup_one_original:
  assumes "\<forall>d\<in>set docs. canonical_record ty d"
  shows "\<exists>out. dedup_docs rp ty docs = Inr out \<and>
     (\<forall>k. cluster ty k docs \<noteq> [] \<longrightarrow>
        mset (map without_status (cluster ty k out)) = mset (map without_status (cluster ty k docs)) \<and>
        length (filter (\<lambda>d. doc_status d = Some ''original'') (cluster ty k out)) = 1 \<and>
        (\<forall>d\<in>set (cluster ty k out). doc_status d = Some ''original'' \<or> doc_status d = Some ''duplicate'') \<and>
        (\<forall>orig\<in>set (cluster ty k out). doc_status orig = Some ''original'' \<longrightarrow>
           (\<forall>d\<in>set (cluster ty k out). doc_filename orig \<le> doc_filename d))) \<and>
     (\<forall>docs'. mset docs' = mset docs \<longrightarrow>
        (\<exists>out'. dedup_docs rp ty docs' = Inr out' \<and> mset out' = mset out))"
proof -
  have named: "\<forall>d\<in>set docs. map_of d ''filename'' \<noteq> None"
    using assms canonical_filename by blast
  obtain out where out: "dedup_docs rp ty docs = Inr out"
    and gr: "\<And>k. stage_group rp ty k out = mark_statuses (sort_key doc_filename (stage_group rp ty k docs))"
    using dedup_docs_groups [OF named, of rp ty] by blast
  have cl: "cluster ty k out = mark_statuses (sort_key doc_filename (cluster ty k docs))" for k
    using gr [of k] by (simp only: marked_groups [OF assms gr] canonical_groups [OF assms])
  have clusters: "\<forall>k. cluster ty k docs \<noteq> [] \<longrightarrow>
        mset (map without_status (cluster ty k out)) = mset (map without_status (cluster ty k docs)) \<and>
        length (filter (\<lambda>d. doc_status d = Some ''original'') (cluster ty k out)) = 1 \<and>
        (\<forall>d\<in>set (cluster ty k out). doc_status d = Some ''original'' \<or> doc_status d = Some ''duplicate'') \<and>
        (\<forall>orig\<in>set (cluster ty k out). doc_status orig = Some ''original'' \<longrightarrow>
           (\<forall>d\<in>set (cluster ty k out). doc_filename orig \<le> doc_filename d))"
    using marked_group by (simp only: cl) blast
  have det: "\<exists>out'. dedup_docs rp ty docs' = Inr out' \<and> mset out' = mset out"
    if perm: "mset docs' = mset docs" for docs'
  proof -
    have same: "set docs' = set docs" using perm by (rule mset_eq_setD)
    with named have "\<forall>d\<in>set docs'. map_of d ''filename'' \<noteq> None" by simp
    then obtain out' where out': "dedup_docs rp ty docs' = Inr out'"
      and gr': "\<And>k. stage_group rp ty k out' = mark_statuses (sort_key doc_filename (stage_group rp ty k docs'))"
      using dedup_docs_groups [of docs' rp ty] by blast
    have ident: "identified_by_name rp ty docs" using assms by (rule canonical_identified)
    have "stage_group rp ty k out' = stage_group rp ty k out" for k
      by (simp only: gr gr' sorted_group_permuted [OF perm ident])
    then have "mset out' = mset out"
      unfolding stage_group_def by (rule mset_by_groups)
    with out' show ?thesis by blast
  qed
  from out clusters det show ?thesis by blast
qed

theorem dedup_one_original_witness:
  "dedup_docs (\<lambda>v. []) ''w2''
     [[(''document_type'', ''w2''), (''filename'', ''b.json''), (''docId'', ''''),
       (''employee_name'', ''Bob''), (''employer_name'', ''ACME''), (''year'', ''2023''),
       (''status'', ''original'')],
      [(''document_type'', ''w2''), (''filename'', ''c.json''), (''docId'', ''''),
       (''employee_name'', ''Ann''), (''employer_name'', ''Initech''), (''year'', ''2019''),
       (''status'', ''original'')],
      [(''document_type'', ''w2''), (''filename'', ''a.json''), (''docId'', ''''),
       (''employee_name'', ''Bob''), (''employer_name'', ''ACME''), (''year'', ''2023''),
       (''status'', ''original'')]] =
   Inr [[(''document_type'', ''w2''), (''filename'', ''a.json''), (''docId'', ''''),
         (''employee_name'', ''Bob''), (''employer_name'', ''ACME''), (''year'', ''2023''),
         (''status'', ''original'')],
        [(''document_type'', ''w2''), (''filename'', ''b.json''), (''docId'', ''''),
         (''employee_name'', ''Bob''), (''employer_name'', ''ACME''), (''year'', ''2023''),
         (''status'', ''duplicate'')],
        [(''document_type'', ''w2''), (''filename'', ''c.json''), (''docId'', ''''),
         (''employee_name'', ''Ann''), (''employer_name'', ''Initech''), (''year'', ''2019''),
         (''status'', ''original'')]] \<and>
   cluster ''w2'' [''Bob'', ''ACME'', ''2023'']
     [[(''document_type'', ''w2''), (''filename'', ''b.json''), (''docId'', ''''),
       (''employee_name'', ''Bob''), (''employer_name'', ''ACME''), (''year'', ''2023''),
       (''status'', ''original'')],
      [(''document_type'', ''w2''), (''filename'', ''c.json''), (''docId'', ''''),
       (''employee_name'', ''Ann''), (''employer_name'', ''Initech''), (''year'', ''2019''),
       (''status'', ''original'')],
      [(''document_type'', ''w2''), (''filename'', ''a.json''), (''docId'', ''''),
       (''employee_name'', ''Bob''), (''employer_name'', ''ACME''), (''year'', ''2023''),
       (''status'', ''original'')]] =
     [[(''document_type'', ''w2''), (''filename'', ''b.json''), (''docId'', ''''),
       (''employee_name'', ''Bob''), (''employer_name'', ''ACME''), (''year'', ''2023''),
       (''status'', ''original'')],
      [(''document_type'', ''w2''), (''filename'', ''a.json''), (''docId'', ''''),
       (''employee_name'', ''Bob''), (''employer_name'', ''ACME''), (''year'', ''2023''),
       (''status'', ''original'')]] \<and>
   cluster ''w2'' [''Ann'', ''Initech'', ''2019'']
     [[(''document_type'', ''w2''), (''filename'', ''b.json''), (''docId'', ''''),
       (''employee_name'', ''Bob''), (''employer_name'', ''ACME''), (''year'', ''2023''),
       (''status'', ''original'')],
      [(''document_type'', ''w2''), (''filename'', ''c.json''), (''docId'', ''''),
       (''employee_name'', ''Ann''), (''employer_name'', ''Initech''), (''year'', ''2019''),
       (''status'', ''original'')],
      [(''document_type'', ''w2''), (''filename'', ''a.json''), (''docId'', ''''),
       (''employee_name'', ''Bob''), (''employer_name'', ''ACME''), (''year'', ''2023''),
       (''status'', ''original'')]] =
     [[(''document_type'', ''w2''), (''filename'', ''c.json''), (''docId'', ''''),
       (''employee_name'', ''Ann''), (''employer_name'', ''Initech''), (''year'', ''2019''),
       (''status'', ''original'')]]"
proof -
  let ?b = "[(''document_type'', ''w2''), (''filename'', ''b.json''), (''docId'', ''''),
       (''employee_name'', ''Bob''), (''employer_name'', ''ACME''), (''year'', ''2023''),
       (''status'', ''original'')]"
  let ?c = "[(''document_type'', ''w2''), (''filename'', ''c.json''), (''docId'', ''''),
       (''employee_name'', ''Ann''), (''employer_name'', ''Initech''), (''year'', ''2019''),
       (''status'', ''original'')]"
  let ?a = "[(''document_type'', ''w2''), (''filename'', ''a.json''), (''docId'', ''''),
       (''employee_name'', ''Bob''), (''employer_name'', ''ACME''), (''year'', ''2023''),
       (''status'', ''original'')]"
  have cb: "canonical_record ''w2'' ?b" by code_simp
  have cc: "canonical_record ''w2'' ?c" by code_simp
  have ca: "canonical_record ''w2'' ?a" by code_simp
  have canon: "\<forall>d\<in>set [?b, ?c, ?a]. canonical_record ''w2'' d" using cb cc ca by simp
  have run: "dedup_docs (\<lambda>v. []) ''w2'' [?b, ?c, ?a] =
     Inr [[(''document_type'', ''w2''), (''filename'', ''a.json''), (''docId'', ''''),
         (''employee_name'', ''Bob''), (''employer_name'', ''ACME''), (''year'', ''2023''),
         (''status'', ''original'')],
        [(''document_type'', ''w2''), (''filename'', ''b.json''), (''docId'', ''''),
         (''employee_name'', ''Bob''), (''employer_name'', ''ACME''), (''year'', ''2023''),
         (''status'', ''duplicate'')],
        [(''document_type'', ''w2''), (''filename'', ''c.json''), (''docId'', ''''),
         (''employee_name'', ''Ann''), (''employer_name'', ''Initech''), (''year'', ''2019''),
         (''status'', ''original'')]]"
    by code_simp
  have c1: "cluster ''w2'' [''Bob'', ''ACME'', ''2023''] [?b, ?c, ?a] = [?b, ?a]" by code_simp
  have c2: "cluster ''w2'' [''Ann'', ''Initech'', ''2019''] [?b, ?c, ?a] = [?c]" by code_simp
  show ?thesis
    using dedup_one_original [OF canon, of "\<lambda>v. []"] run c1 c2 by simp
qed

end
